theory Spec2Isabelle
  imports Main
begin

section \<open>Data model (the interfaces of @/types)\<close>

text \<open>
  The three entity interfaces \<open>Note\<close>, \<open>Folder\<close> and \<open>Tag\<close>, field for field
  (in the sources at hand they follow the dialog provider in
  \<open>src/contexts/DialogContext.tsx\<close>). A TypeScript \<open>number\<close> that holds a
  millisecond timestamp or a pixel size is an \<open>int\<close>; \<open>string | null\<close> is a
  \<open>string option\<close>; the optional \<open>color?\<close> is an option as well. Field names carry
  the entity's name where the interfaces share a name (\<open>id\<close>, \<open>name\<close>,
  \<open>createdAt\<close>, and \<open>tags\<close> of the store).
\<close>

record Note =
  note_id :: string
  title :: string
  content :: string
  folderId :: "string option"
  note_tags :: "string list"
  createdAt :: int
  updatedAt :: int
  fontSize :: int

record Folder =
  folder_id :: string
  folder_name :: string
  parentId :: "string option"
  folder_createdAt :: int

record Tag =
  tag_id :: string
  tag_name :: string
  color :: "string option"

text \<open>
  \<open>Partial<Note>\<close> and \<open>Partial<Folder>\<close>: every key may be absent (\<open>None\<close>) or
  present with a value of the field's type. A present \<open>folderId: null\<close> is
  \<open>Some None\<close>.
\<close>

record NoteUpdates =
  upd_id :: "string option"
  upd_title :: "string option"
  upd_content :: "string option"
  upd_folderId :: "string option option"
  upd_tags :: "string list option"
  upd_createdAt :: "int option"
  upd_updatedAt :: "int option"
  upd_fontSize :: "int option"

record FolderUpdates =
  fupd_id :: "string option"
  fupd_name :: "string option"
  fupd_parentId :: "string option option"
  fupd_createdAt :: "int option"

definition no_updates :: NoteUpdates where
  "no_updates = \<lparr>upd_id = None, upd_title = None, upd_content = None, upd_folderId = None,
     upd_tags = None, upd_createdAt = None, upd_updatedAt = None, upd_fontSize = None\<rparr>"

definition no_folder_updates :: FolderUpdates where
  "no_folder_updates = \<lparr>fupd_id = None, fupd_name = None, fupd_parentId = None,
     fupd_createdAt = None\<rparr>"

section \<open>Number.prototype.toString and String.prototype.toLowerCase\<close>

text \<open>
  \<open>Date.now().toString()\<close> writes an integer in decimal, with a leading minus sign
  for a negative one. A string is a list of code units below 256, and \<open>toLowerCase\<close>
  sends the capital letters among them (the ASCII ones, and those from U+00C0 to U+00DE
  without the multiplication sign U+00D7) to their small letters and leaves every other
  code unit as it is.
\<close>

definition digit_char :: "nat \<Rightarrow> char" where
  "digit_char d = ''0123456789'' ! d"

definition is_digit :: "char \<Rightarrow> bool" where
  "is_digit c = (c \<in> set ''0123456789'')"

definition digit_val :: "char \<Rightarrow> nat" where
  "digit_val c =
     (case map_of (zip ''0123456789'' [0, 1, 2, 3, 4, 5, 6, 7, 8, 9]) c of
        Some d \<Rightarrow> d | None \<Rightarrow> 0)"

fun dec_of_nat :: "nat \<Rightarrow> string" where
  "dec_of_nat n =
     (if n < 10 then [digit_char n] else dec_of_nat (n div 10) @ [digit_char (n mod 10)])"

declare dec_of_nat.simps [simp del]

definition nat_of_dec :: "string \<Rightarrow> nat" where
  "nat_of_dec ds = foldl (\<lambda>acc c. 10 * acc + digit_val c) 0 ds"

definition toString :: "int \<Rightarrow> string" where
  "toString i = (if i < 0 then CHR ''-'' # dec_of_nat (nat (- i)) else dec_of_nat (nat i))"

definition upper_letters :: string where
  "upper_letters = ''ABCDEFGHIJKLMNOPQRSTUVWXYZ'' @
     [CHR 0xC0, CHR 0xC1, CHR 0xC2, CHR 0xC3, CHR 0xC4, CHR 0xC5, CHR 0xC6, CHR 0xC7,
      CHR 0xC8, CHR 0xC9, CHR 0xCA, CHR 0xCB, CHR 0xCC, CHR 0xCD, CHR 0xCE, CHR 0xCF,
      CHR 0xD0, CHR 0xD1, CHR 0xD2, CHR 0xD3, CHR 0xD4, CHR 0xD5, CHR 0xD6, CHR 0xD8,
      CHR 0xD9, CHR 0xDA, CHR 0xDB, CHR 0xDC, CHR 0xDD, CHR 0xDE]"

definition lower_letters :: string where
  "lower_letters = ''abcdefghijklmnopqrstuvwxyz'' @
     [CHR 0xE0, CHR 0xE1, CHR 0xE2, CHR 0xE3, CHR 0xE4, CHR 0xE5, CHR 0xE6, CHR 0xE7,
      CHR 0xE8, CHR 0xE9, CHR 0xEA, CHR 0xEB, CHR 0xEC, CHR 0xED, CHR 0xEE, CHR 0xEF,
      CHR 0xF0, CHR 0xF1, CHR 0xF2, CHR 0xF3, CHR 0xF4, CHR 0xF5, CHR 0xF6, CHR 0xF8,
      CHR 0xF9, CHR 0xFA, CHR 0xFB, CHR 0xFC, CHR 0xFD, CHR 0xFE]"

definition lower_char :: "char \<Rightarrow> char" where
  "lower_char c = (case map_of (zip upper_letters lower_letters) c of Some l \<Rightarrow> l | None \<Rightarrow> c)"

definition toLowerCase :: "string \<Rightarrow> string" where
  "toLowerCase s = map lower_char s"

section \<open>The store (NotesProvider of @/contexts/NotesContext)\<close>

text \<open>
  The provider's five \<open>useState\<close> cells (in the sources at hand the provider follows
  the page component in \<open>README.md\<close>). Every operation is a function from the
  state its updates are applied to (the \<open>prev\<close> of its updater functions) to the state
  after them. A callback also closes over cells of the render it was made in.
  \<open>createTag\<close> takes the \<open>tags\<close> of that render as an argument of its own, since the
  tags it looks the name up in need not be the tags it appends to. \<open>deleteTag\<close>,
  \<open>deleteNote\<close> and \<open>deleteFolder\<close> are given for a call made on the rendered state:
  the \<open>tags\<close>, \<open>selectedNoteId\<close> and \<open>selectedFolderId\<close> they close over are
  those of the state they update. Each reading of \<open>Date.now()\<close> is an argument. The cells
  \<open>notes\<close>, \<open>folders\<close> and \<open>tags\<close> are the fields \<open>st_notes\<close>,
  \<open>st_folders\<close> and \<open>st_tags\<close> (\<open>notes\<close> is a keyword of Isabelle).
\<close>

record store =
  st_notes :: "Note list"
  st_folders :: "Folder list"
  st_tags :: "Tag list"
  selectedNoteId :: "string option"
  selectedFolderId :: "string option"

definition empty_store :: store where
  "empty_store = \<lparr>st_notes = [], st_folders = [], st_tags = [], selectedNoteId = None,
     selectedFolderId = None\<rparr>"

text \<open>
  \<open>createNote\<close> reads the clock three times: for the id, for \<open>createdAt\<close> and for
  \<open>updatedAt\<close>, in this order.
\<close>

definition createNote :: "string option \<Rightarrow> int \<Rightarrow> int \<Rightarrow> int \<Rightarrow> store \<Rightarrow> Note \<times> store" where
  "createNote fid t_id t_created t_updated s =
     (let newNote = \<lparr>note_id = toString t_id, title = ''Untitled Note'', content = '''',
                      folderId = fid, note_tags = [], createdAt = t_created,
                      updatedAt = t_updated, fontSize = 16\<rparr>
      in (newNote, s\<lparr>st_notes := st_notes s @ [newNote], selectedNoteId := Some (note_id newNote)\<rparr>))"

text \<open>The spread \<open>{ ...note, ...updates }\<close>: a key present in the updates wins.\<close>

definition merge_note :: "Note \<Rightarrow> NoteUpdates \<Rightarrow> Note" where
  "merge_note n u =
     \<lparr>note_id = (case upd_id u of None \<Rightarrow> note_id n | Some v \<Rightarrow> v),
      title = (case upd_title u of None \<Rightarrow> title n | Some v \<Rightarrow> v),
      content = (case upd_content u of None \<Rightarrow> content n | Some v \<Rightarrow> v),
      folderId = (case upd_folderId u of None \<Rightarrow> folderId n | Some v \<Rightarrow> v),
      note_tags = (case upd_tags u of None \<Rightarrow> note_tags n | Some v \<Rightarrow> v),
      createdAt = (case upd_createdAt u of None \<Rightarrow> createdAt n | Some v \<Rightarrow> v),
      updatedAt = (case upd_updatedAt u of None \<Rightarrow> updatedAt n | Some v \<Rightarrow> v),
      fontSize = (case upd_fontSize u of None \<Rightarrow> fontSize n | Some v \<Rightarrow> v)\<rparr>"

text \<open>
  \<open>updateNote\<close> writes \<open>updatedAt: Date.now()\<close> after the spread, on every note with
  the given id. The clock is read once for each such note; the readings of one call are
  taken to be the same.
\<close>

definition updateNote :: "string \<Rightarrow> NoteUpdates \<Rightarrow> int \<Rightarrow> store \<Rightarrow> store" where
  "updateNote i u now s =
     s\<lparr>st_notes := map (\<lambda>note. if note_id note = i then (merge_note note u)\<lparr>updatedAt := now\<rparr> else note)
                    (st_notes s)\<rparr>"

definition deleteNote :: "string \<Rightarrow> store \<Rightarrow> store" where
  "deleteNote i s =
     (let s' = s\<lparr>st_notes := filter (\<lambda>note. note_id note \<noteq> i) (st_notes s)\<rparr>
      in if selectedNoteId s = Some i then s'\<lparr>selectedNoteId := None\<rparr> else s')"

definition createFolder :: "string \<Rightarrow> string option \<Rightarrow> int \<Rightarrow> int \<Rightarrow> store \<Rightarrow> Folder \<times> store" where
  "createFolder name pid t_id t_created s =
     (let newFolder = \<lparr>folder_id = toString t_id, folder_name = name, parentId = pid,
                        folder_createdAt = t_created\<rparr>
      in (newFolder, s\<lparr>st_folders := st_folders s @ [newFolder]\<rparr>))"

definition merge_folder :: "Folder \<Rightarrow> FolderUpdates \<Rightarrow> Folder" where
  "merge_folder f u =
     \<lparr>folder_id = (case fupd_id u of None \<Rightarrow> folder_id f | Some v \<Rightarrow> v),
      folder_name = (case fupd_name u of None \<Rightarrow> folder_name f | Some v \<Rightarrow> v),
      parentId = (case fupd_parentId u of None \<Rightarrow> parentId f | Some v \<Rightarrow> v),
      folder_createdAt = (case fupd_createdAt u of None \<Rightarrow> folder_createdAt f | Some v \<Rightarrow> v)\<rparr>"

definition updateFolder :: "string \<Rightarrow> FolderUpdates \<Rightarrow> store \<Rightarrow> store" where
  "updateFolder i u s =
     s\<lparr>st_folders := map (\<lambda>folder. if folder_id folder = i then merge_folder folder u else folder)
                      (st_folders s)\<rparr>"

text \<open>
  \<open>deleteFolder\<close> first moves the folder's notes to the root, then drops the folder,
  then clears the folder selection when it was the deleted one.
\<close>

definition deleteFolder :: "string \<Rightarrow> store \<Rightarrow> store" where
  "deleteFolder i s =
     (let s1 = s\<lparr>st_notes := map (\<lambda>note. if folderId note = Some i then note\<lparr>folderId := None\<rparr> else note)
                              (st_notes s)\<rparr>;
          s2 = s1\<lparr>st_folders := filter (\<lambda>folder. folder_id folder \<noteq> i) (st_folders s1)\<rparr>
      in if selectedFolderId s = Some i then s2\<lparr>selectedFolderId := None\<rparr> else s2)"

text \<open>
  \<open>createTag\<close> looks the name up in \<open>tags\<close>, the tags of the render the callback
  was made in (\<open>useCallback\<close> with the dependency \<open>[tags]\<close>), and returns the first
  one whose lower-cased name is the lower-cased argument. Only without one it reads the
  clock and appends a new tag (which has no \<open>color\<close> key), and it appends to the tags
  of the state the update is applied to (\<open>setTags((prev) => [...prev, newTag])\<close>). Two
  calls from one render read the same \<open>tags\<close>; a call made after a render of the state
  \<open>s\<close> reads \<open>st_tags s\<close>.
\<close>

definition createTag :: "Tag list \<Rightarrow> string \<Rightarrow> int \<Rightarrow> store \<Rightarrow> Tag \<times> store" where
  "createTag tags name t_id s =
     (case find (\<lambda>t. toLowerCase (tag_name t) = toLowerCase name) tags of
        Some existingTag \<Rightarrow> (existingTag, s)
      | None \<Rightarrow>
          (let newTag = \<lparr>tag_id = toString t_id, tag_name = name, color = None\<rparr>
           in (newTag, s\<lparr>st_tags := st_tags s @ [newTag]\<rparr>)))"

text \<open>
  \<open>deleteTag\<close> looks the tag up by id (the first one with that id), filters its name
  out of every note's tags, keeping everything when there is no such tag, and then
  drops every tag with that id.
\<close>

definition deleteTag :: "string \<Rightarrow> store \<Rightarrow> store" where
  "deleteTag i s =
     (let s1 = s\<lparr>st_notes := map (\<lambda>note. note\<lparr>note_tags :=
                      filter (\<lambda>tagName. case find (\<lambda>t. tag_id t = i) (st_tags s) of
                                           Some tag \<Rightarrow> tagName \<noteq> tag_name tag
                                         | None \<Rightarrow> True)
                             (note_tags note)\<rparr>) (st_notes s)\<rparr>
      in s1\<lparr>st_tags := filter (\<lambda>tag. tag_id tag \<noteq> i) (st_tags s1)\<rparr>)"

definition selectNote :: "string option \<Rightarrow> store \<Rightarrow> store" where
  "selectNote i s = s\<lparr>selectedNoteId := i\<rparr>"

definition selectFolder :: "string option \<Rightarrow> store \<Rightarrow> store" where
  "selectFolder i s = s\<lparr>selectedFolderId := i\<rparr>"

definition getNotesByFolder :: "string option \<Rightarrow> store \<Rightarrow> Note list" where
  "getNotesByFolder fid s = filter (\<lambda>note. folderId note = fid) (st_notes s)"

definition getNotesByTag :: "string \<Rightarrow> store \<Rightarrow> Note list" where
  "getNotesByTag tagName s = filter (\<lambda>note. tagName \<in> set (note_tags note)) (st_notes s)"

section \<open>The editor's font size (components/Editor.tsx)\<close>

definition MIN_FONT_SIZE :: int where
  "MIN_FONT_SIZE = 12"

definition MAX_FONT_SIZE :: int where
  "MAX_FONT_SIZE = 48"

definition DEFAULT_FONT_SIZE :: int where
  "DEFAULT_FONT_SIZE = 16"

text \<open>
  \<open>handleFontSizeChange(delta)\<close> replaces the editor's font size \<open>prev\<close> by
  \<open>Math.max(MIN_FONT_SIZE, Math.min(MAX_FONT_SIZE, prev + delta))\<close>; the auto-save
  effect then calls \<open>updateNote(selectedNoteId, { fontSize })\<close> with the new value.
\<close>

definition handleFontSizeChange :: "int \<Rightarrow> int \<Rightarrow> int" where
  "handleFontSizeChange delta prev = max MIN_FONT_SIZE (min MAX_FONT_SIZE (prev + delta))"

definition fontSize_updates :: "int \<Rightarrow> NoteUpdates" where
  "fontSize_updates v = no_updates\<lparr>upd_fontSize := Some v\<rparr>"

section \<open>Sequences of calls\<close>

text \<open>
  A call of the store's interface with its arguments and the clock readings it makes
  (a \<open>createTag\<close> call also with the tags of the render it is made from), and the
  state after a list of calls made one after the other.
\<close>

datatype store_call =
    CreateNote "string option" int int int
  | UpdateNote string NoteUpdates int
  | DeleteNote string
  | CreateFolder string "string option" int int
  | UpdateFolder string FolderUpdates
  | DeleteFolder string
  | CreateTag "Tag list" string int
  | DeleteTag string
  | SelectNote "string option"
  | SelectFolder "string option"

fun apply_call :: "store_call \<Rightarrow> store \<Rightarrow> store" where
  "apply_call (CreateNote fid t_id t_created t_updated) s = snd (createNote fid t_id t_created t_updated s)"
| "apply_call (UpdateNote i u now) s = updateNote i u now s"
| "apply_call (DeleteNote i) s = deleteNote i s"
| "apply_call (CreateFolder name pid t_id t_created) s = snd (createFolder name pid t_id t_created s)"
| "apply_call (UpdateFolder i u) s = updateFolder i u s"
| "apply_call (DeleteFolder i) s = deleteFolder i s"
| "apply_call (CreateTag tags name t_id) s = snd (createTag tags name t_id s)"
| "apply_call (DeleteTag i) s = deleteTag i s"
| "apply_call (SelectNote i) s = selectNote i s"
| "apply_call (SelectFolder i) s = selectFolder i s"

fun run_calls :: "store_call list \<Rightarrow> store \<Rightarrow> store" where
  "run_calls [] s = s"
| "run_calls (c # cs) s = run_calls cs (apply_call c s)"

text \<open>The readings of \<open>Date.now()\<close> a call makes, in the order it makes them.\<close>

fun readings :: "store_call \<Rightarrow> int list" where
  "readings (CreateNote fid t_id t_created t_updated) = [t_id, t_created, t_updated]"
| "readings (UpdateNote i u now) = [now]"
| "readings (CreateFolder name pid t_id t_created) = [t_id, t_created]"
| "readings (CreateTag tags name t_id) = [t_id]"
| "readings c = []"

text \<open>The reading a \<open>createNote\<close> call turns into the new note's id.\<close>

fun note_id_readings :: "store_call \<Rightarrow> int list" where
  "note_id_readings (CreateNote fid t_id t_created t_updated) = [t_id]"
| "note_id_readings c = []"

text \<open>Whether a call is an \<open>updateNote\<close> whose fields carry the given key.\<close>

fun carries_id :: "store_call \<Rightarrow> bool" where
  "carries_id (UpdateNote i u now) = (upd_id u \<noteq> None)"
| "carries_id c = False"

fun carries_createdAt :: "store_call \<Rightarrow> bool" where
  "carries_createdAt (UpdateNote i u now) = (upd_createdAt u \<noteq> None)"
| "carries_createdAt c = False"

text \<open>Whether a call is \<open>createNote\<close> or \<open>deleteNote\<close>, the two that add or remove a note.\<close>

fun adds_or_removes_note :: "store_call \<Rightarrow> bool" where
  "adds_or_removes_note (CreateNote fid t_id t_created t_updated) = True"
| "adds_or_removes_note (DeleteNote i) = True"
| "adds_or_removes_note c = False"

section \<open>JSON.stringify and JSON.parse\<close>

text \<open>
  The values the store serialises: \<open>null\<close>, booleans, integers, strings, arrays and
  objects (the members in the order of their keys' insertion). A string is a list of
  code units below 256.
\<close>

datatype json = JNull | JBool bool | JNum int | JStr string | JArr "json list"
  | JObj "(string \<times> json) list"

text \<open>
  \<open>SyntaxError\<close> is the exception of \<open>JSON.parse\<close>. \<open>OutsideModel\<close> marks a text
  this model gives no value to: a number with a fraction or an exponent, an escape
  of a code unit above 255 by its four hexadecimal digits, or a text on which the
  recursion below reaches its bound.
\<close>

datatype js_error = SyntaxError | OutsideModel

definition hex_char :: "nat \<Rightarrow> char" where
  "hex_char d = ''0123456789abcdef'' ! d"

definition hex_val :: "char \<Rightarrow> nat option" where
  "hex_val c = map_of (zip ''0123456789abcdefABCDEF''
       [0, 1, 2, 3, 4, 5, 6, 7, 8, 9, 10, 11, 12, 13, 14, 15, 10, 11, 12, 13, 14, 15]) c"

definition is_control :: "char \<Rightarrow> bool" where
  "is_control c = ((of_char c :: nat) < 32)"

text \<open>
  QuoteJSONString: the quotation mark and the backslash are escaped, the control
  characters are written in their short form where there is one and by their four hexadecimal
  digits otherwise, and every other code unit stands for itself.
\<close>

definition quote_char :: "char \<Rightarrow> string" where
  "quote_char c =
     (if c = CHR 0x22 then [CHR 0x5C, CHR 0x22]
      else if c = CHR 0x5C then [CHR 0x5C, CHR 0x5C]
      else if c = CHR 0x08 then [CHR 0x5C, CHR ''b'']
      else if c = CHR 0x0C then [CHR 0x5C, CHR ''f'']
      else if c = CHR 0x0A then [CHR 0x5C, CHR ''n'']
      else if c = CHR 0x0D then [CHR 0x5C, CHR ''r'']
      else if c = CHR 0x09 then [CHR 0x5C, CHR ''t'']
      else if is_control c then
        [CHR 0x5C, CHR ''u'', CHR ''0'', CHR ''0'', hex_char (of_char c div 16), hex_char (of_char c mod 16)]
      else [c])"

definition quote :: "string \<Rightarrow> string" where
  "quote s = CHR 0x22 # concat (map quote_char s) @ [CHR 0x22]"

fun stringify :: "json \<Rightarrow> string"
and stringify_elems :: "json list \<Rightarrow> string"
and stringify_members :: "(string \<times> json) list \<Rightarrow> string"
where
  "stringify JNull = ''null''"
| "stringify (JBool b) = (if b then ''true'' else ''false'')"
| "stringify (JNum i) = toString i"
| "stringify (JStr s) = quote s"
| "stringify (JArr vs) = CHR ''['' # stringify_elems vs @ '']''"
| "stringify (JObj kvs) = CHR ''{'' # stringify_members kvs @ ''}''"
| "stringify_elems [] = []"
| "stringify_elems (v # vs) = stringify v @ (if vs = [] then [] else CHR '','' # stringify_elems vs)"
| "stringify_members [] = []"
| "stringify_members ((k, v) # kvs) =
     quote k @ CHR '':'' # stringify v @ (if kvs = [] then [] else CHR '','' # stringify_members kvs)"

definition JSON_stringify :: "json \<Rightarrow> string" where
  "JSON_stringify v = stringify v"

definition is_ws :: "char \<Rightarrow> bool" where
  "is_ws c = (c = CHR '' '' \<or> c = CHR 0x09 \<or> c = CHR 0x0A \<or> c = CHR 0x0D)"

definition skip_ws :: "string \<Rightarrow> string" where
  "skip_ws s = dropWhile is_ws s"

definition unescape :: "char \<Rightarrow> char option" where
  "unescape e = map_of [(CHR 0x22, CHR 0x22), (CHR 0x5C, CHR 0x5C), (CHR ''/'', CHR ''/''),
     (CHR ''b'', CHR 0x08), (CHR ''f'', CHR 0x0C), (CHR ''n'', CHR 0x0A), (CHR ''r'', CHR 0x0D),
     (CHR ''t'', CHR 0x09)] e"

definition hex4 :: "string \<Rightarrow> js_error + char" where
  "hex4 hs =
     (case map hex_val hs of
        [Some a, Some b, Some c, Some d] \<Rightarrow>
          if a = 0 \<and> b = 0 then Inr (char_of (16 * c + d)) else Inl OutsideModel
      | _ \<Rightarrow> Inl SyntaxError)"

text \<open>The characters of a string literal after its opening quotation mark.\<close>

fun parse_chars :: "string \<Rightarrow> js_error + (string \<times> string)" where
  "parse_chars [] = Inl SyntaxError"
| "parse_chars (c # cs) =
     (if c = CHR 0x22 then Inr ([], cs)
      else if c = CHR 0x5C then
        (case cs of
           [] \<Rightarrow> Inl SyntaxError
         | e # r \<Rightarrow>
             if e = CHR ''u'' then
               (case hex4 (take 4 r) of
                  Inl err \<Rightarrow> Inl err
                | Inr d \<Rightarrow> (case parse_chars (drop 4 r) of
                             Inl err \<Rightarrow> Inl err
                           | Inr (str, rest) \<Rightarrow> Inr (d # str, rest)))
             else
               (case unescape e of
                  None \<Rightarrow> Inl SyntaxError
                | Some d \<Rightarrow> (case parse_chars r of
                              Inl err \<Rightarrow> Inl err
                            | Inr (str, rest) \<Rightarrow> Inr (d # str, rest))))
      else if is_control c then Inl SyntaxError
      else (case parse_chars cs of
              Inl err \<Rightarrow> Inl err
            | Inr (str, rest) \<Rightarrow> Inr (c # str, rest)))"

text \<open>
  A number: an optional minus sign and digits, without a leading zero before another
  digit.
\<close>

definition parse_number :: "string \<Rightarrow> js_error + (json \<times> string)" where
  "parse_number s =
     (let neg = (case s of [] \<Rightarrow> False | c # _ \<Rightarrow> c = CHR ''-'');
          body = (if neg then tl s else s);
          ds = takeWhile is_digit body;
          r = dropWhile is_digit body
      in if ds = [] then Inl SyntaxError
         else if hd ds = CHR ''0'' \<and> length ds > 1 then Inl SyntaxError
         else if r \<noteq> [] \<and> hd r \<in> set ''.eE'' then Inl OutsideModel
         else Inr (JNum (if neg then - int (nat_of_dec ds) else int (nat_of_dec ds)), r))"

definition parse_literal :: "string \<Rightarrow> js_error + (json \<times> string)" where
  "parse_literal s =
     (if take 4 s = ''null'' then Inr (JNull, drop 4 s)
      else if take 4 s = ''true'' then Inr (JBool True, drop 4 s)
      else if take 5 s = ''false'' then Inr (JBool False, drop 5 s)
      else Inl SyntaxError)"

text \<open>
  The recursive descent over values, array elements and object members. The first
  argument bounds the depth of the recursion; \<open>JSON_parse\<close> starts it above twice
  the length of the text.
\<close>

fun parse_value :: "nat \<Rightarrow> string \<Rightarrow> js_error + (json \<times> string)"
and parse_elems :: "nat \<Rightarrow> string \<Rightarrow> js_error + (json list \<times> string)"
and parse_members :: "nat \<Rightarrow> string \<Rightarrow> js_error + ((string \<times> json) list \<times> string)"
where
  "parse_value 0 s = Inl OutsideModel"
| "parse_value (Suc n) s =
     (case skip_ws s of
        [] \<Rightarrow> Inl SyntaxError
      | c # cs \<Rightarrow>
          if c = CHR ''['' then
            (case skip_ws cs of
               [] \<Rightarrow> Inl SyntaxError
             | d # ds \<Rightarrow>
                 if d = CHR '']'' then Inr (JArr [], ds)
                 else (case parse_elems n cs of
                         Inl err \<Rightarrow> Inl err
                       | Inr (vs, r) \<Rightarrow> Inr (JArr vs, r)))
          else if c = CHR ''{'' then
            (case skip_ws cs of
               [] \<Rightarrow> Inl SyntaxError
             | d # ds \<Rightarrow>
                 if d = CHR ''}'' then Inr (JObj [], ds)
                 else (case parse_members n cs of
                         Inl err \<Rightarrow> Inl err
                       | Inr (kvs, r) \<Rightarrow> Inr (JObj kvs, r)))
          else if c = CHR 0x22 then
            (case parse_chars cs of
               Inl err \<Rightarrow> Inl err
             | Inr (str, r) \<Rightarrow> Inr (JStr str, r))
          else if c = CHR ''-'' \<or> is_digit c then parse_number (c # cs)
          else parse_literal (c # cs))"
| "parse_elems 0 s = Inl OutsideModel"
| "parse_elems (Suc n) s =
     (case parse_value n s of
        Inl err \<Rightarrow> Inl err
      | Inr (v, r) \<Rightarrow>
          (case skip_ws r of
             [] \<Rightarrow> Inl SyntaxError
           | c # cs \<Rightarrow>
               if c = CHR '','' then
                 (case parse_elems n cs of
                    Inl err \<Rightarrow> Inl err
                  | Inr (vs, r') \<Rightarrow> Inr (v # vs, r'))
               else if c = CHR '']'' then Inr ([v], cs)
               else Inl SyntaxError))"
| "parse_members 0 s = Inl OutsideModel"
| "parse_members (Suc n) s =
     (case skip_ws s of
        [] \<Rightarrow> Inl SyntaxError
      | q # cs \<Rightarrow>
          if q \<noteq> CHR 0x22 then Inl SyntaxError
          else
            (case parse_chars cs of
               Inl err \<Rightarrow> Inl err
             | Inr (k, r) \<Rightarrow>
                 (case skip_ws r of
                    [] \<Rightarrow> Inl SyntaxError
                  | c # r1 \<Rightarrow>
                      if c \<noteq> CHR '':'' then Inl SyntaxError
                      else
                        (case parse_value n r1 of
                           Inl err \<Rightarrow> Inl err
                         | Inr (v, r2) \<Rightarrow>
                             (case skip_ws r2 of
                                [] \<Rightarrow> Inl SyntaxError
                              | d # r3 \<Rightarrow>
                                  if d = CHR '','' then
                                    (case parse_members n r3 of
                                       Inl err \<Rightarrow> Inl err
                                     | Inr (kvs, r4) \<Rightarrow> Inr ((k, v) # kvs, r4))
                                  else if d = CHR ''}'' then Inr ([(k, v)], r3)
                                  else Inl SyntaxError)))))"

definition JSON_parse :: "string \<Rightarrow> js_error + json" where
  "JSON_parse s =
     (case parse_value (Suc (length s + length s)) s of
        Inl err \<Rightarrow> Inl err
      | Inr (v, r) \<Rightarrow> if skip_ws r = [] then Inr v else Inl SyntaxError)"

text \<open>
  The characters a value's text can start with, and what can follow a value's text:
  the end of the text, a comma or a closing bracket.
\<close>

definition starts_value :: "char \<Rightarrow> bool" where
  "starts_value c = (c \<in> set ''[{-0123456789ntf'' \<or> c = CHR 0x22)"

definition ends_value :: "string \<Rightarrow> bool" where
  "ends_value r = (case r of [] \<Rightarrow> True | c # _ \<Rightarrow> c \<in> set '',]}'')"

section \<open>The persistence adapter (lib/storage.ts)\<close>

text \<open>
  Where the code runs: without a \<open>window\<close> (on the server), or in a browser with
  the content of its \<open>localStorage\<close>, a map from keys to texts.
\<close>

datatype runtime = NoWindow | Window "string \<Rightarrow> string option"

definition STORAGE_KEYS_NOTES :: string where
  "STORAGE_KEYS_NOTES = ''writewell_notes''"

definition STORAGE_KEYS_FOLDERS :: string where
  "STORAGE_KEYS_FOLDERS = ''writewell_folders''"

definition STORAGE_KEYS_TAGS :: string where
  "STORAGE_KEYS_TAGS = ''writewell_tags''"

text \<open>
  The objects of the three interfaces as JavaScript values, their keys in the order in
  which \<open>createNote\<close>, \<open>createFolder\<close> and \<open>createTag\<close> write them. A tag without
  a colour has no \<open>color\<close> key.
\<close>

definition js_of_id :: "string option \<Rightarrow> json" where
  "js_of_id i = (case i of None \<Rightarrow> JNull | Some v \<Rightarrow> JStr v)"

definition js_of_note :: "Note \<Rightarrow> json" where
  "js_of_note n = JObj
     [(''id'', JStr (note_id n)), (''title'', JStr (title n)), (''content'', JStr (content n)),
      (''folderId'', js_of_id (folderId n)), (''tags'', JArr (map JStr (note_tags n))),
      (''createdAt'', JNum (createdAt n)), (''updatedAt'', JNum (updatedAt n)),
      (''fontSize'', JNum (fontSize n))]"

definition js_of_folder :: "Folder \<Rightarrow> json" where
  "js_of_folder f = JObj
     [(''id'', JStr (folder_id f)), (''name'', JStr (folder_name f)),
      (''parentId'', js_of_id (parentId f)), (''createdAt'', JNum (folder_createdAt f))]"

definition js_of_tag :: "Tag \<Rightarrow> json" where
  "js_of_tag t = JObj
     ([(''id'', JStr (tag_id t)), (''name'', JStr (tag_name t))] @
      (case color t of None \<Rightarrow> [] | Some c \<Rightarrow> [(''color'', JStr c)]))"

text \<open>
  \<open>data ? JSON.parse(data) : fallback\<close>: the fallback is taken for a missing key and
  for the empty text; any other text goes to \<open>JSON.parse\<close>, whose exception is the
  function's.
\<close>

definition storage_get :: "string \<Rightarrow> runtime \<Rightarrow> js_error + json" where
  "storage_get key rt =
     (case rt of
        NoWindow \<Rightarrow> Inr JNull
      | Window ls \<Rightarrow>
          (case ls key of
             None \<Rightarrow> Inr JNull
           | Some data \<Rightarrow> if data \<noteq> [] then JSON_parse data else Inr JNull))"

definition storage_set :: "string \<Rightarrow> json \<Rightarrow> runtime \<Rightarrow> runtime" where
  "storage_set key v rt =
     (case rt of
        NoWindow \<Rightarrow> NoWindow
      | Window ls \<Rightarrow> Window (ls(key \<mapsto> JSON_stringify v)))"

definition getNotes :: "runtime \<Rightarrow> js_error + json" where
  "getNotes rt =
     (case rt of
        NoWindow \<Rightarrow> Inr (JArr [])
      | Window ls \<Rightarrow>
          (case ls STORAGE_KEYS_NOTES of
             None \<Rightarrow> Inr (JArr [])
           | Some data \<Rightarrow> if data \<noteq> [] then JSON_parse data else Inr (JArr [])))"

definition saveNotes :: "Note list \<Rightarrow> runtime \<Rightarrow> runtime" where
  "saveNotes ns rt =
     (case rt of
        NoWindow \<Rightarrow> NoWindow
      | Window ls \<Rightarrow> Window (ls(STORAGE_KEYS_NOTES \<mapsto> JSON_stringify (JArr (map js_of_note ns)))))"

definition getFolders :: "runtime \<Rightarrow> js_error + json" where
  "getFolders rt =
     (case rt of
        NoWindow \<Rightarrow> Inr (JArr [])
      | Window ls \<Rightarrow>
          (case ls STORAGE_KEYS_FOLDERS of
             None \<Rightarrow> Inr (JArr [])
           | Some data \<Rightarrow> if data \<noteq> [] then JSON_parse data else Inr (JArr [])))"

definition saveFolders :: "Folder list \<Rightarrow> runtime \<Rightarrow> runtime" where
  "saveFolders fs rt =
     (case rt of
        NoWindow \<Rightarrow> NoWindow
      | Window ls \<Rightarrow> Window (ls(STORAGE_KEYS_FOLDERS \<mapsto> JSON_stringify (JArr (map js_of_folder fs)))))"

definition getTags :: "runtime \<Rightarrow> js_error + json" where
  "getTags rt =
     (case rt of
        NoWindow \<Rightarrow> Inr (JArr [])
      | Window ls \<Rightarrow>
          (case ls STORAGE_KEYS_TAGS of
             None \<Rightarrow> Inr (JArr [])
           | Some data \<Rightarrow> if data \<noteq> [] then JSON_parse data else Inr (JArr [])))"

definition saveTags :: "Tag list \<Rightarrow> runtime \<Rightarrow> runtime" where
  "saveTags ts rt =
     (case rt of
        NoWindow \<Rightarrow> NoWindow
      | Window ls \<Rightarrow> Window (ls(STORAGE_KEYS_TAGS \<mapsto> JSON_stringify (JArr (map js_of_tag ts)))))"

section \<open>Sample data\<close>

text \<open>Concrete entities, stores and call lists at which the theorems below are run.\<close>

definition drafts_folder :: Folder where
  "drafts_folder = \<lparr>folder_id = ''1'', folder_name = ''Drafts'', parentId = None,
     folder_createdAt = 1\<rparr>"

definition filed_note :: Note where
  "filed_note = \<lparr>note_id = ''2'', title = ''Essay'', content = ''<p>Hi</p>'',
     folderId = Some ''1'', note_tags = [''work'', ''home''], createdAt = 2, updatedAt = 4,
     fontSize = 16\<rparr>"

definition root_note :: Note where
  "root_note = \<lparr>note_id = ''3'', title = ''Untitled Note'', content = '''', folderId = None,
     note_tags = [''home''], createdAt = 3, updatedAt = 3, fontSize = 18\<rparr>"

definition work_tag :: Tag where
  "work_tag = \<lparr>tag_id = ''5'', tag_name = ''work'', color = None\<rparr>"

definition home_tag :: Tag where
  "home_tag = \<lparr>tag_id = ''6'', tag_name = ''home'', color = None\<rparr>"

definition sample_store :: store where
  "sample_store = \<lparr>st_notes = [filed_note, root_note], st_folders = [drafts_folder],
     st_tags = [work_tag, home_tag], selectedNoteId = None, selectedFolderId = Some ''1''\<rparr>"

definition title_updates :: "string \<Rightarrow> NoteUpdates" where
  "title_updates v = no_updates\<lparr>upd_title := Some v\<rparr>"

definition sample_calls :: "store_call list" where
  "sample_calls = [CreateNote None 10 10 11, CreateNote (Some ''1'') 12 12 12,
     UpdateNote ''10'' (title_updates ''Essay'') 15, DeleteNote ''12'',
     CreateNote None 15 15 15]"

definition tags_updates :: "string list \<Rightarrow> NoteUpdates" where
  "tags_updates v = no_updates\<lparr>upd_tags := Some v\<rparr>"

definition id_updates :: "string \<Rightarrow> NoteUpdates" where
  "id_updates v = no_updates\<lparr>upd_id := Some v\<rparr>"

definition createdAt_updates :: "int \<Rightarrow> NoteUpdates" where
  "createdAt_updates v = no_updates\<lparr>upd_createdAt := Some v\<rparr>"

text \<open>A store with one note filed under a folder id that no folder has.\<close>

definition ghost_store :: store where
  "ghost_store = snd (createNote (Some ''ghost'') 5 5 5 empty_store)"

text \<open>
  A store with two tags created from one render of the empty store at the same reading
  of the clock, and a note that carries both names.
\<close>

definition same_id_tags_store :: store where
  "same_id_tags_store = run_calls [CreateTag [] ''a'' 5, CreateTag [] ''b'' 5, CreateNote None 6 6 6,
     UpdateNote ''6'' (tags_updates [''a'', ''b'']) 7] empty_store"

text \<open>The three collections of a store, without the selection.\<close>

definition collections :: "store \<Rightarrow> Note list \<times> Folder list \<times> Tag list" where
  "collections s = (st_notes s, st_folders s, st_tags s)"

section \<open>Decimal numerals\<close>

lemma lt10_cases:
  "(d::nat) < 10 \<Longrightarrow>
   d = 0 \<or> d = 1 \<or> d = 2 \<or> d = 3 \<or> d = 4 \<or> d = 5 \<or> d = 6 \<or> d = 7 \<or> d = 8 \<or> d = 9"
  by arith

lemma digit_val_digit_char: "d < 10 \<Longrightarrow> digit_val (digit_char d) = d"
  by (drule lt10_cases) (auto simp: digit_val_def digit_char_def)

lemma is_digit_digit_char: "d < 10 \<Longrightarrow> is_digit (digit_char d)"
  by (drule lt10_cases) (auto simp: is_digit_def digit_char_def)

lemma digit_char_nonzero: "0 < d \<Longrightarrow> d < 10 \<Longrightarrow> digit_char d \<noteq> CHR ''0''"
  by (drule lt10_cases) (auto simp: digit_char_def)

lemma nat_of_dec_snoc: "nat_of_dec (ds @ [c]) = 10 * nat_of_dec ds + digit_val c"
  by (simp add: nat_of_dec_def)

text \<open>Reading the decimal numeral of a number gives the number back.\<close>

lemma nat_of_dec_of_nat: "nat_of_dec (dec_of_nat n) = n"
proof (induction n rule: dec_of_nat.induct)
  case (1 n)
  show ?case
  proof (cases "n < 10")
    case True
    then show ?thesis
      by (simp add: dec_of_nat.simps [of n] nat_of_dec_def digit_val_digit_char)
  next
    case False
    with 1 have "nat_of_dec (dec_of_nat (n div 10)) = n div 10" by simp
    with False show ?thesis
      by (simp add: dec_of_nat.simps [of n] nat_of_dec_snoc digit_val_digit_char)
  qed
qed

lemma dec_of_nat_digits: "\<forall>c \<in> set (dec_of_nat n). is_digit c"
proof (induction n rule: dec_of_nat.induct)
  case (1 n)
  show ?case
  proof (cases "n < 10")
    case True
    then show ?thesis
      by (simp add: dec_of_nat.simps [of n] is_digit_digit_char)
  next
    case False
    with 1 have "\<forall>c \<in> set (dec_of_nat (n div 10)). is_digit c" by simp
    with False show ?thesis
      by (simp add: dec_of_nat.simps [of n] is_digit_digit_char)
  qed
qed

lemma dec_of_nat_nonempty: "dec_of_nat n \<noteq> []"
  by (subst dec_of_nat.simps) simp

lemma dec_of_nat_inj: "dec_of_nat m = dec_of_nat n \<Longrightarrow> m = n"
  by (metis nat_of_dec_of_nat)

lemma not_digit_minus: "\<not> is_digit CHR ''-''"
  by (simp add: is_digit_def)

lemma hd_dec_of_nat_digit: "is_digit (hd (dec_of_nat n))"
  using dec_of_nat_digits [of n] dec_of_nat_nonempty [of n] by (cases "dec_of_nat n") auto

text \<open>Two different integers have different decimal texts.\<close>

lemma toString_inj: "toString i = toString j \<Longrightarrow> i = j"
proof -
  assume eq: "toString i = toString j"
  have neg: "a < 0 \<Longrightarrow> \<not> b < 0 \<Longrightarrow> toString a \<noteq> toString b" for a b
  proof
    assume "a < 0" "\<not> b < 0" "toString a = toString b"
    then have "hd (dec_of_nat (nat b)) = CHR ''-''"
      by (simp add: toString_def) (metis list.sel(1))
    with hd_dec_of_nat_digit [of "nat b"] not_digit_minus show False by simp
  qed
  show ?thesis
  proof (cases "i < 0"; cases "j < 0")
    assume "i < 0" "j < 0"
    with eq have "nat (- i) = nat (- j)" by (simp add: toString_def dec_of_nat_inj)
    with \<open>i < 0\<close> \<open>j < 0\<close> show ?thesis by simp
  next
    assume "i < 0" "\<not> j < 0"
    with neg eq show ?thesis by blast
  next
    assume "\<not> i < 0" "j < 0"
    with neg [of j i] eq show ?thesis by simp
  next
    assume "\<not> i < 0" "\<not> j < 0"
    with eq have "nat i = nat j" by (simp add: toString_def dec_of_nat_inj)
    with \<open>\<not> i < 0\<close> \<open>\<not> j < 0\<close> show ?thesis by simp
  qed
qed

section \<open>JSON.parse reads back what JSON.stringify writes\<close>

lemma skip_ws_not_ws: "\<not> is_ws c \<Longrightarrow> skip_ws (c # s) = c # s"
  by (simp add: skip_ws_def)

lemma hex_val_table:
  "map hex_val ''0123456789abcdef'' =
     [Some 0, Some 1, Some 2, Some 3, Some 4, Some 5, Some 6, Some 7, Some 8, Some 9, Some 10,
      Some 11, Some 12, Some 13, Some 14, Some 15]"
  by (simp add: hex_val_def)

lemma some_table:
  "d < 16 \<Longrightarrow>
   [Some 0, Some 1, Some 2, Some 3, Some 4, Some 5, Some 6, Some 7, Some 8, Some 9, Some 10,
    Some 11, Some 12, Some 13, Some 14, Some (15::nat)] ! d = Some d"
proof -
  assume "d < 16"
  then have "map Some [0..<16] ! d = Some d"
    by (simp del: upt_Suc)
  moreover have "map Some [0..<16] = [Some 0, Some 1, Some 2, Some 3, Some 4, Some 5, Some 6,
      Some 7, Some 8, Some 9, Some 10, Some 11, Some 12, Some 13, Some 14, Some (15::nat)]"
    by (simp add: upt_rec)
  ultimately show ?thesis by simp
qed

lemma hex_val_hex_char: "d < 16 \<Longrightarrow> hex_val (hex_char d) = Some d"
proof -
  assume d: "d < 16"
  then have "hex_val (hex_char d) = map hex_val ''0123456789abcdef'' ! d"
    unfolding hex_char_def by (subst nth_map) simp_all
  with d show ?thesis
    by (simp only: hex_val_table some_table)
qed

lemma hex4_control:
  assumes "is_control c"
  shows "hex4 (take 4 (CHR ''0'' # CHR ''0'' # hex_char (of_char c div 16) # hex_char (of_char c mod 16) # s))
           = Inr c"
proof -
  let ?n = "of_char c :: nat"
  from assms have "?n div 16 < 16" "?n mod 16 < 16"
    by (simp_all add: is_control_def)
  then have "hex_val (hex_char (?n div 16)) = Some (?n div 16)"
    and "hex_val (hex_char (?n mod 16)) = Some (?n mod 16)"
    by (simp_all add: hex_val_hex_char)
  moreover have "hex_val CHR ''0'' = Some 0"
    by (simp add: hex_val_def)
  ultimately show ?thesis
    by (simp add: hex4_def)
qed

lemma parse_chars_close: "parse_chars (CHR 0x22 # r) = Inr ([], r)"
  by simp

lemma parse_chars_escape:
  "unescape e = Some d \<Longrightarrow> e \<noteq> CHR ''u'' \<Longrightarrow>
   parse_chars (CHR 0x5C # e # s) =
     (case parse_chars s of Inl err \<Rightarrow> Inl err | Inr (str, rest) \<Rightarrow> Inr (d # str, rest))"
  by simp

lemma parse_chars_unicode:
  "hex4 (take 4 r) = Inr d \<Longrightarrow>
   parse_chars (CHR 0x5C # CHR ''u'' # r) =
     (case parse_chars (drop 4 r) of Inl err \<Rightarrow> Inl err | Inr (str, rest) \<Rightarrow> Inr (d # str, rest))"
  by simp

lemma parse_chars_plain:
  "c \<noteq> CHR 0x22 \<Longrightarrow> c \<noteq> CHR 0x5C \<Longrightarrow> \<not> is_control c \<Longrightarrow>
   parse_chars (c # s) =
     (case parse_chars s of Inl err \<Rightarrow> Inl err | Inr (str, rest) \<Rightarrow> Inr (c # str, rest))"
  by simp

lemma unescape_short:
  "unescape CHR 0x22 = Some CHR 0x22" "unescape CHR 0x5C = Some CHR 0x5C"
  "unescape CHR ''b'' = Some CHR 0x08" "unescape CHR ''f'' = Some CHR 0x0C"
  "unescape CHR ''n'' = Some CHR 0x0A" "unescape CHR ''r'' = Some CHR 0x0D"
  "unescape CHR ''t'' = Some CHR 0x09"
  by (simp_all add: unescape_def)

lemma parse_chars_quote_char:
  "parse_chars (quote_char c @ s) =
     (case parse_chars s of Inl err \<Rightarrow> Inl err | Inr (str, rest) \<Rightarrow> Inr (c # str, rest))"
proof -
  consider (quo) "c = CHR 0x22" | (bsl) "c = CHR 0x5C" | (b) "c = CHR 0x08" | (f) "c = CHR 0x0C"
    | (n) "c = CHR 0x0A" | (r) "c = CHR 0x0D" | (t) "c = CHR 0x09"
    | (ctl) "c \<notin> set [CHR 0x22, CHR 0x5C, CHR 0x08, CHR 0x0C, CHR 0x0A, CHR 0x0D, CHR 0x09]" "is_control c"
    | (plain) "c \<notin> set [CHR 0x22, CHR 0x5C, CHR 0x08, CHR 0x0C, CHR 0x0A, CHR 0x0D, CHR 0x09]" "\<not> is_control c"
    by auto
  then show ?thesis
  proof cases
    case quo
    show ?thesis
      unfolding quo by (simp add: quote_char_def parse_chars_escape [OF unescape_short(1)] del: parse_chars.simps)
  next
    case bsl
    show ?thesis
      unfolding bsl by (simp add: quote_char_def parse_chars_escape [OF unescape_short(2)] del: parse_chars.simps)
  next
    case b
    show ?thesis
      unfolding b by (simp add: quote_char_def parse_chars_escape [OF unescape_short(3)] del: parse_chars.simps)
  next
    case f
    show ?thesis
      unfolding f by (simp add: quote_char_def parse_chars_escape [OF unescape_short(4)] del: parse_chars.simps)
  next
    case n
    show ?thesis
      unfolding n by (simp add: quote_char_def parse_chars_escape [OF unescape_short(5)] del: parse_chars.simps)
  next
    case r
    show ?thesis
      unfolding r by (simp add: quote_char_def parse_chars_escape [OF unescape_short(6)] del: parse_chars.simps)
  next
    case t
    show ?thesis
      unfolding t by (simp add: quote_char_def parse_chars_escape [OF unescape_short(7)] del: parse_chars.simps)
  next
    case ctl
    then have q: "quote_char c = [CHR 0x5C, CHR ''u'', CHR ''0'', CHR ''0'',
        hex_char (of_char c div 16), hex_char (of_char c mod 16)]"
      by (simp add: quote_char_def)
    show ?thesis
      unfolding q using parse_chars_unicode [OF hex4_control [OF ctl(2), of s]]
      by (simp del: parse_chars.simps)
  next
    case plain
    then show ?thesis
      by (simp add: quote_char_def parse_chars_plain del: parse_chars.simps)
  qed
qed

lemma parse_chars_quoted:
  "parse_chars (concat (map quote_char str) @ CHR 0x22 # r) = Inr (str, r)"
  by (induction str) (simp_all add: parse_chars_quote_char parse_chars_close del: parse_chars.simps)

lemma hd_dec_of_nat_nonzero: "0 < n \<Longrightarrow> hd (dec_of_nat n) \<noteq> CHR ''0''"
proof (induction n rule: dec_of_nat.induct)
  case (1 n)
  show ?case
  proof (cases "n < 10")
    case True
    with 1(2) show ?thesis
      by (simp add: dec_of_nat.simps [of n] digit_char_nonzero)
  next
    case False
    then have "0 < n div 10" by simp
    with 1(1) False have "hd (dec_of_nat (n div 10)) \<noteq> CHR ''0''" by simp
    with False show ?thesis
      by (simp add: dec_of_nat.simps [of n] dec_of_nat_nonempty)
  qed
qed

lemma dec_of_nat_no_leading_zero:
  "\<not> (hd (dec_of_nat n) = CHR ''0'' \<and> 1 < length (dec_of_nat n))"
proof (cases "n = 0")
  case True
  then show ?thesis by (simp add: dec_of_nat.simps [of 0])
next
  case False
  then show ?thesis using hd_dec_of_nat_nonzero [of n] by simp
qed

lemma takeWhile_digits:
  assumes "\<forall>c \<in> set ds. is_digit c" and "r = [] \<or> \<not> is_digit (hd r)"
  shows "takeWhile is_digit (ds @ r) = ds" and "dropWhile is_digit (ds @ r) = r"
proof -
  from assms(2) have t: "takeWhile is_digit r = []" and d: "dropWhile is_digit r = r"
    by (cases r; auto)+
  from assms(1) show "takeWhile is_digit (ds @ r) = ds"
    by (simp add: takeWhile_append2 t)
  from assms(1) show "dropWhile is_digit (ds @ r) = r"
    by (simp add: dropWhile_append2 d)
qed

lemma parse_digits:
  assumes "r = [] \<or> (\<not> is_digit (hd r) \<and> hd r \<notin> set ''.eE'')"
  shows "takeWhile is_digit (dec_of_nat n @ r) = dec_of_nat n"
    and "dropWhile is_digit (dec_of_nat n @ r) = r"
  using takeWhile_digits [OF dec_of_nat_digits [of n], of r] assms by auto

lemma ends_value_number: "ends_value r \<Longrightarrow> r = [] \<or> (\<not> is_digit (hd r) \<and> hd r \<notin> set ''.eE'')"
  by (cases r) (auto simp: ends_value_def is_digit_def)

lemma parse_number_toString:
  assumes "ends_value r"
  shows "parse_number (toString i @ r) = Inr (JNum i, r)"
proof -
  note rr = ends_value_number [OF assms]
  show ?thesis
  proof (cases "i < 0")
    case True
    let ?ds = "dec_of_nat (nat (- i))"
    have s: "toString i @ r = CHR ''-'' # ?ds @ r"
      using True by (simp add: toString_def)
    have "parse_number (CHR ''-'' # ?ds @ r) = Inr (JNum (- int (nat_of_dec ?ds)), r)"
      using rr dec_of_nat_no_leading_zero [of "nat (- i)"]
      by (auto simp add: parse_number_def Let_def parse_digits [OF rr] dec_of_nat_nonempty)
    with True show ?thesis
      by (simp add: s nat_of_dec_of_nat)
  next
    case False
    let ?ds = "dec_of_nat (nat i)"
    obtain c t where ct: "?ds = c # t"
      using dec_of_nat_nonempty [of "nat i"] by (cases ?ds) auto
    with hd_dec_of_nat_digit [of "nat i"] have "c \<noteq> CHR ''-''"
      using not_digit_minus by auto
    then have neg: "(case ?ds @ r of [] \<Rightarrow> False | c # _ \<Rightarrow> c = CHR ''-'') = False"
      by (simp add: ct)
    have s: "toString i @ r = ?ds @ r"
      using False by (simp add: toString_def)
    have "parse_number (?ds @ r) = Inr (JNum (int (nat_of_dec ?ds)), r)"
      using rr dec_of_nat_no_leading_zero [of "nat i"]
      by (auto simp add: parse_number_def Let_def neg parse_digits [OF rr] dec_of_nat_nonempty)
    with False show ?thesis
      by (simp add: s nat_of_dec_of_nat)
  qed
qed

lemma starts_value_facts:
  "starts_value c \<Longrightarrow> \<not> is_ws c \<and> c \<noteq> CHR '']'' \<and> c \<noteq> CHR ''}''"
  by (auto simp: starts_value_def is_ws_def)

lemma toString_starts: "\<exists>c t. toString i = c # t \<and> (c = CHR ''-'' \<or> is_digit c)"
proof (cases "i < 0")
  case True
  then show ?thesis by (simp add: toString_def)
next
  case False
  obtain c t where ct: "dec_of_nat (nat i) = c # t"
    using dec_of_nat_nonempty [of "nat i"] by (cases "dec_of_nat (nat i)") auto
  with hd_dec_of_nat_digit [of "nat i"] have "is_digit c" by simp
  with ct False show ?thesis by (simp add: toString_def)
qed

lemma stringify_starts: "\<exists>c t. stringify v = c # t \<and> starts_value c"
proof (cases v)
  case (JNum i)
  from toString_starts [of i] obtain c t where "toString i = c # t" "c = CHR ''-'' \<or> is_digit c"
    by blast
  with JNum show ?thesis
    by (auto simp: starts_value_def is_digit_def)
qed (auto simp: starts_value_def quote_def)

lemma stringify_nonempty: "stringify v \<noteq> []"
  using stringify_starts [of v] by auto

lemma stringify_elems_starts: "vs \<noteq> [] \<Longrightarrow> \<exists>c t. stringify_elems vs = c # t \<and> starts_value c"
proof (cases vs)
  case Nil
  assume "vs \<noteq> []"
  with Nil show ?thesis by simp
next
  case (Cons v ws)
  from stringify_starts [of v] obtain c t where "stringify v = c # t" "starts_value c" by blast
  with Cons show ?thesis by simp
qed

lemma stringify_members_starts:
  "kvs \<noteq> [] \<Longrightarrow> \<exists>t. stringify_members kvs = CHR 0x22 # t"
  by (cases kvs) (auto simp: quote_def)

lemma skip_ws_ends: "skip_ws (CHR '','' # s) = CHR '','' # s" "skip_ws (CHR '']'' # s) = CHR '']'' # s"
  "skip_ws (CHR ''}'' # s) = CHR ''}'' # s" "skip_ws (CHR '':'' # s) = CHR '':'' # s"
  "skip_ws (CHR 0x22 # s) = CHR 0x22 # s"
  by (simp_all add: skip_ws_def is_ws_def)

lemma parse_value_number:
  "c = CHR ''-'' \<or> is_digit c \<Longrightarrow> parse_value (Suc n) (c # s) = parse_number (c # s)"
  by (auto simp: skip_ws_def is_ws_def is_digit_def)

lemma parse_value_string:
  "parse_value (Suc n) (CHR 0x22 # s) =
     (case parse_chars s of Inl err \<Rightarrow> Inl err | Inr (str, r) \<Rightarrow> Inr (JStr str, r))"
  by (simp add: skip_ws_def is_ws_def)

lemma parse_value_literals:
  "parse_value (Suc n) (''null'' @ r) = Inr (JNull, r)"
  "parse_value (Suc n) (''true'' @ r) = Inr (JBool True, r)"
  "parse_value (Suc n) (''false'' @ r) = Inr (JBool False, r)"
  by (simp_all add: skip_ws_def is_ws_def is_digit_def parse_literal_def)

lemma parse_value_empty:
  "parse_value (Suc n) (CHR ''['' # CHR '']'' # r) = Inr (JArr [], r)"
  "parse_value (Suc n) (CHR ''{'' # CHR ''}'' # r) = Inr (JObj [], r)"
  by (simp_all add: skip_ws_def is_ws_def)

lemma parse_value_array:
  "starts_value c \<Longrightarrow>
   parse_value (Suc n) (CHR ''['' # c # s) =
     (case parse_elems n (c # s) of Inl err \<Rightarrow> Inl err | Inr (vs, r) \<Rightarrow> Inr (JArr vs, r))"
  by (frule starts_value_facts) (simp add: skip_ws_def is_ws_def)

lemma parse_value_object:
  "parse_value (Suc n) (CHR ''{'' # CHR 0x22 # s) =
     (case parse_members n (CHR 0x22 # s) of Inl err \<Rightarrow> Inl err | Inr (kvs, r) \<Rightarrow> Inr (JObj kvs, r))"
  by (simp add: skip_ws_def is_ws_def)

lemma parse_elems_step:
  "parse_value n s = Inr (v, CHR '','' # r) \<Longrightarrow>
   parse_elems (Suc n) s =
     (case parse_elems n r of Inl err \<Rightarrow> Inl err | Inr (vs, r') \<Rightarrow> Inr (v # vs, r'))"
  "parse_value n s = Inr (v, CHR '']'' # r) \<Longrightarrow> parse_elems (Suc n) s = Inr ([v], r)"
  by (simp_all add: skip_ws_ends)

lemma parse_members_step:
  "parse_value n s = Inr (v, CHR '','' # r) \<Longrightarrow>
   parse_members (Suc n) (quote k @ CHR '':'' # s) =
     (case parse_members n r of Inl err \<Rightarrow> Inl err | Inr (kvs, r') \<Rightarrow> Inr ((k, v) # kvs, r'))"
  "parse_value n s = Inr (v, CHR ''}'' # r) \<Longrightarrow>
   parse_members (Suc n) (quote k @ CHR '':'' # s) = Inr ([(k, v)], r)"
  by (simp_all add: skip_ws_ends quote_def parse_chars_quoted)

lemma ends_value_simps: "ends_value []" "ends_value (CHR '','' # r)" "ends_value (CHR '']'' # r)"
  "ends_value (CHR ''}'' # r)"
  by (simp_all add: ends_value_def)

lemma length_quote: "0 < length (quote k)"
  by (simp add: quote_def)

lemma parse_stringify:
  "length (stringify v) \<le> n \<Longrightarrow> ends_value r \<Longrightarrow> parse_value n (stringify v @ r) = Inr (v, r)"
  "vs \<noteq> [] \<Longrightarrow> length (stringify_elems vs) < n \<Longrightarrow>
     parse_elems n (stringify_elems vs @ CHR '']'' # r) = Inr (vs, r)"
  "kvs \<noteq> [] \<Longrightarrow> length (stringify_members kvs) < n \<Longrightarrow>
     parse_members n (stringify_members kvs @ CHR ''}'' # r) = Inr (kvs, r)"
proof (induction v and vs and kvs arbitrary: n r and n r and n r
    rule: stringify_stringify_elems_stringify_members.induct)
  case 1
  then obtain m where "n = Suc m" by (cases n) auto
  then show ?case using parse_value_literals(1) [of m r] by simp
next
  case (2 b)
  then obtain m where "n = Suc m" by (cases n; cases b) auto
  then show ?case using parse_value_literals(2,3) [of m r] by simp
next
  case (3 i)
  from stringify_nonempty [of "JNum i"] 3(1) obtain m where n: "n = Suc m" by (cases n) auto
  from toString_starts [of i] obtain c t where ct: "toString i = c # t" "c = CHR ''-'' \<or> is_digit c"
    by blast
  have "parse_value (Suc m) (c # t @ r) = parse_number (c # t @ r)"
    by (rule parse_value_number [OF ct(2)])
  with parse_number_toString [OF 3(2), of i] show ?case
    by (simp add: n ct(1))
next
  case (4 s)
  from stringify_nonempty [of "JStr s"] 4(1) obtain m where n: "n = Suc m" by (cases n) auto
  show ?case
    by (simp add: n quote_def parse_value_string parse_chars_quoted del: parse_value.simps)
next
  case (5 vs)
  from 5(2) obtain m where n: "n = Suc m" by (cases n) auto
  show ?case
  proof (cases "vs = []")
    case True
    then show ?thesis by (simp add: n parse_value_empty del: parse_value.simps)
  next
    case False
    from stringify_elems_starts [OF False] obtain c t where ct: "stringify_elems vs = c # t"
      "starts_value c" by blast
    from 5(2) have "length (stringify_elems vs) < m" by (simp add: n)
    from 5(1) [OF False this, of r] have "parse_elems m (c # t @ CHR '']'' # r) = Inr (vs, r)"
      by (simp add: ct(1))
    then show ?thesis
      by (simp add: n ct(1) parse_value_array [OF ct(2)] del: parse_value.simps)
  qed
next
  case (6 kvs)
  from 6(2) obtain m where n: "n = Suc m" by (cases n) auto
  show ?case
  proof (cases "kvs = []")
    case True
    then show ?thesis by (simp add: n parse_value_empty del: parse_value.simps)
  next
    case False
    from stringify_members_starts [OF False] obtain t where ct: "stringify_members kvs = CHR 0x22 # t"
      by blast
    from 6(2) have "length (stringify_members kvs) < m" by (simp add: n)
    from 6(1) [OF False this, of r] have "parse_members m (CHR 0x22 # t @ CHR ''}'' # r) = Inr (kvs, r)"
      by (simp add: ct)
    then show ?thesis
      by (simp add: n ct parse_value_object del: parse_value.simps)
  qed
next
  case 7
  then show ?case by simp
next
  case (8 v vs)
  from 8(4) obtain m where n: "n = Suc m" by (cases n) auto
  have lv: "0 < length (stringify v)" using stringify_nonempty [of v] by simp
  show ?case
  proof (cases "vs = []")
    case True
    from 8(4) have "length (stringify v) \<le> m" by (simp add: n True)
    from 8(1) [OF this, of "CHR '']'' # r"]
    have "parse_value m (stringify v @ CHR '']'' # r) = Inr (v, CHR '']'' # r)"
      by (simp add: ends_value_simps)
    from parse_elems_step(2) [OF this] show ?thesis
      by (simp add: n True del: parse_elems.simps)
  next
    case False
    from 8(4) have "length (stringify v) \<le> m" by (simp add: n False)
    from 8(1) [OF this, of "CHR '','' # stringify_elems vs @ CHR '']'' # r"]
    have pv: "parse_value m (stringify v @ CHR '','' # stringify_elems vs @ CHR '']'' # r) =
        Inr (v, CHR '','' # stringify_elems vs @ CHR '']'' # r)"
      by (simp add: ends_value_simps)
    from 8(4) lv have "length (stringify_elems vs) < m" by (simp add: n False)
    from 8(2) [OF False False this, of r]
    have "parse_elems m (stringify_elems vs @ CHR '']'' # r) = Inr (vs, r)" .
    with parse_elems_step(1) [OF pv] show ?thesis
      by (simp add: n False del: parse_elems.simps)
  qed
next
  case 9
  then show ?case by simp
next
  case (10 k v kvs)
  from 10(4) obtain m where n: "n = Suc m" by (cases n) auto
  have lv: "0 < length (stringify v)" using stringify_nonempty [of v] by simp
  show ?case
  proof (cases "kvs = []")
    case True
    from 10(4) have "length (stringify v) \<le> m" by (simp add: n True)
    from 10(1) [OF this, of "CHR ''}'' # r"]
    have "parse_value m (stringify v @ CHR ''}'' # r) = Inr (v, CHR ''}'' # r)"
      by (simp add: ends_value_simps)
    from parse_members_step(2) [OF this, of k] show ?thesis
      by (simp add: n True del: parse_members.simps)
  next
    case False
    from 10(4) have "length (stringify v) \<le> m" by (simp add: n False)
    from 10(1) [OF this, of "CHR '','' # stringify_members kvs @ CHR ''}'' # r"]
    have pv: "parse_value m (stringify v @ CHR '','' # stringify_members kvs @ CHR ''}'' # r) =
        Inr (v, CHR '','' # stringify_members kvs @ CHR ''}'' # r)"
      by (simp add: ends_value_simps)
    from 10(4) lv length_quote [of k] have "length (stringify_members kvs) < m"
      by (simp add: n False)
    from 10(2) [OF False False this, of r]
    have "parse_members m (stringify_members kvs @ CHR ''}'' # r) = Inr (kvs, r)" .
    with parse_members_step(1) [OF pv, of k] show ?thesis
      by (simp add: n False del: parse_members.simps)
  qed
qed

text \<open>Parsing the text of a value gives the value, whatever the value.\<close>

lemma JSON_parse_stringify: "JSON_parse (JSON_stringify v) = Inr v"
  using parse_stringify(1) [of v "Suc (length (stringify v) + length (stringify v))" "[]"]
  by (simp add: JSON_parse_def JSON_stringify_def ends_value_simps skip_ws_def)

section \<open>What each operation does to the collections\<close>

lemma createNote_notes:
  "st_notes (snd (createNote fid a b c s)) =
     st_notes s @ [\<lparr>note_id = toString a, title = ''Untitled Note'', content = '''', folderId = fid,
                    note_tags = [], createdAt = b, updatedAt = c, fontSize = 16\<rparr>]"
  by (simp add: createNote_def Let_def)

lemma updateNote_notes:
  "st_notes (updateNote i u now s) =
     map (\<lambda>note. if note_id note = i then (merge_note note u)\<lparr>updatedAt := now\<rparr> else note) (st_notes s)"
  by (simp add: updateNote_def)

lemma deleteNote_notes: "st_notes (deleteNote i s) = filter (\<lambda>note. note_id note \<noteq> i) (st_notes s)"
  by (simp add: deleteNote_def Let_def)

lemma createFolder_notes: "st_notes (snd (createFolder name pid a b s)) = st_notes s"
  by (simp add: createFolder_def Let_def)

lemma updateFolder_notes: "st_notes (updateFolder i u s) = st_notes s"
  by (simp add: updateFolder_def)

lemma deleteFolder_notes:
  "st_notes (deleteFolder i s) =
     map (\<lambda>note. if folderId note = Some i then note\<lparr>folderId := None\<rparr> else note) (st_notes s)"
  by (simp add: deleteFolder_def Let_def)

lemma deleteFolder_folders:
  "st_folders (deleteFolder i s) = filter (\<lambda>folder. folder_id folder \<noteq> i) (st_folders s)"
  by (simp add: deleteFolder_def Let_def)

lemma deleteFolder_tags: "st_tags (deleteFolder i s) = st_tags s"
  by (simp add: deleteFolder_def Let_def)

lemma createTag_notes: "st_notes (snd (createTag tags name a s)) = st_notes s"
  by (simp add: createTag_def Let_def split: option.splits)

lemma deleteTag_notes:
  "st_notes (deleteTag i s) =
     map (\<lambda>note. note\<lparr>note_tags :=
            filter (\<lambda>tagName. case find (\<lambda>t. tag_id t = i) (st_tags s) of
                                 Some tag \<Rightarrow> tagName \<noteq> tag_name tag
                               | None \<Rightarrow> True)
                   (note_tags note)\<rparr>) (st_notes s)"
  by (simp add: deleteTag_def Let_def)

lemma deleteTag_tags: "st_tags (deleteTag i s) = filter (\<lambda>tag. tag_id tag \<noteq> i) (st_tags s)"
  by (simp add: deleteTag_def Let_def)

lemma deleteTag_folders: "st_folders (deleteTag i s) = st_folders s"
  by (simp add: deleteTag_def Let_def)

lemma select_notes: "st_notes (selectNote j s) = st_notes s" "st_notes (selectFolder j s) = st_notes s"
  by (simp_all add: selectNote_def selectFolder_def)

lemma map_unchanged: "(\<And>x. x \<in> set xs \<Longrightarrow> f x = x) \<Longrightarrow> map f xs = xs"
  by (induction xs) auto

lemma filter_unchanged: "(\<And>x. x \<in> set xs \<Longrightarrow> P x) \<Longrightarrow> filter P xs = xs"
  by (induction xs) auto

lemma find_first_match:
  "\<exists>x \<in> set xs. P x \<Longrightarrow> \<exists>y. find P xs = Some y \<and> y \<in> set xs \<and> P y"
  by (induction xs) auto

lemma find_append_new:
  "find P xs = None \<Longrightarrow> P x \<Longrightarrow> find P (xs @ [x]) = Some x"
  by (induction xs) (auto split: if_splits)

section \<open>Evaluations at the sample data\<close>

lemma toLowerCase_samples:
  "toLowerCase ''WORK'' = ''work''" "toLowerCase ''Work'' = ''work''"
  "toLowerCase ''work'' = ''work''" "toLowerCase ''home'' = ''home''"
  "toLowerCase ''a'' = ''a''" "toLowerCase ''b'' = ''b''"
  by (simp_all add: toLowerCase_def lower_char_def upper_letters_def lower_letters_def)

lemma toString_samples:
  "toString 5 = ''5''" "toString 6 = ''6''" "toString 7 = ''7''" "toString 8 = ''8''"
  "toString 10 = ''10''" "toString 12 = ''12''" "toString 15 = ''15''"
  by (simp_all add: toString_def dec_of_nat.simps digit_char_def)

lemma createTag_samples:
  "createTag (st_tags sample_store) ''WORK'' 9 sample_store = (work_tag, sample_store)"
  "createTag (st_tags sample_store) ''Work'' 7 sample_store = (work_tag, sample_store)"
  "createTag (st_tags sample_store) ''work'' 8 sample_store = (work_tag, sample_store)"
  "createTag [] ''Work'' 7 empty_store =
     (\<lparr>tag_id = ''7'', tag_name = ''Work'', color = None\<rparr>,
      empty_store\<lparr>st_tags := [\<lparr>tag_id = ''7'', tag_name = ''Work'', color = None\<rparr>]\<rparr>)"
  "createTag [] ''work'' 8 (empty_store\<lparr>st_tags := [\<lparr>tag_id = ''7'', tag_name = ''Work'', color = None\<rparr>]\<rparr>) =
     (\<lparr>tag_id = ''8'', tag_name = ''work'', color = None\<rparr>,
      empty_store\<lparr>st_tags := [\<lparr>tag_id = ''7'', tag_name = ''Work'', color = None\<rparr>,
                                \<lparr>tag_id = ''8'', tag_name = ''work'', color = None\<rparr>]\<rparr>)"
  by (simp_all add: createTag_def Let_def sample_store_def empty_store_def work_tag_def home_tag_def
      toLowerCase_samples toString_samples)

section \<open>Deleting a folder\<close>

text \<open>
  C1. For a folder \<open>F\<close> of the store, after \<open>deleteFolder(F.id)\<close> no note has
  \<open>folderId = F.id\<close>; the note collection has the same length; position by position,
  a note that had \<open>folderId = F.id\<close> is the same note with \<open>folderId = null\<close>, and
  every other note is unchanged.
\<close>

theorem deleteFolder_moves_notes_to_root:
  assumes "F \<in> set (st_folders s)"
  shows "filter (\<lambda>n. folderId n = Some (folder_id F)) (st_notes (deleteFolder (folder_id F) s)) = []
       \<and> length (st_notes (deleteFolder (folder_id F) s)) = length (st_notes s)
       \<and> (\<forall>k < length (st_notes s).
            (folderId (st_notes s ! k) = Some (folder_id F) \<longrightarrow>
               st_notes (deleteFolder (folder_id F) s) ! k = (st_notes s ! k)\<lparr>folderId := None\<rparr>)
          \<and> (folderId (st_notes s ! k) \<noteq> Some (folder_id F) \<longrightarrow>
               st_notes (deleteFolder (folder_id F) s) ! k = st_notes s ! k))"
proof -
  let ?i = "folder_id F"
  have zero: "filter (\<lambda>n. folderId n = Some ?i) (st_notes (deleteFolder ?i s)) = []"
    by (auto simp add: deleteFolder_notes filter_empty_conv)
  have len: "length (st_notes (deleteFolder ?i s)) = length (st_notes s)"
    by (simp add: deleteFolder_notes)
  have pos: "\<forall>k < length (st_notes s).
            (folderId (st_notes s ! k) = Some ?i \<longrightarrow>
               st_notes (deleteFolder ?i s) ! k = (st_notes s ! k)\<lparr>folderId := None\<rparr>)
          \<and> (folderId (st_notes s ! k) \<noteq> Some ?i \<longrightarrow>
               st_notes (deleteFolder ?i s) ! k = st_notes s ! k)"
    by (simp add: deleteFolder_notes)
  from zero len pos show ?thesis by blast
qed

text \<open>
  The theorem at the sample store: deleting the folder \<open>Drafts\<close> leaves two notes,
  the filed one now at the root and the other one as it was.
\<close>

theorem deleteFolder_moves_notes_to_root_witness:
  "drafts_folder \<in> set (st_folders sample_store)
   \<and> filter (\<lambda>n. folderId n = Some ''1'') (st_notes (deleteFolder ''1'' sample_store)) = []
   \<and> length (st_notes (deleteFolder ''1'' sample_store)) = 2
   \<and> st_notes (deleteFolder ''1'' sample_store) ! 0 = filed_note\<lparr>folderId := None\<rparr>
   \<and> st_notes (deleteFolder ''1'' sample_store) ! 1 = root_note"
  using deleteFolder_moves_notes_to_root [of drafts_folder sample_store]
  by (simp add: sample_store_def drafts_folder_def filed_note_def root_note_def deleteFolder_def)

section \<open>Loading and saving\<close>

lemma getNotes_absent:
  "ls STORAGE_KEYS_NOTES = None \<Longrightarrow> getNotes (Window ls) = Inr (JArr [])"
  by (simp add: getNotes_def)

lemma getNotes_empty_text:
  "ls STORAGE_KEYS_NOTES = Some [] \<Longrightarrow> getNotes (Window ls) = Inr (JArr [])"
  by (simp add: getNotes_def)

text \<open>Whatever \<open>JSON.parse\<close> raises on a stored text, the loader raises.\<close>

lemma getNotes_propagates:
  "JSON_parse data = Inl err \<Longrightarrow> data \<noteq> [] \<Longrightarrow>
   getNotes (Window (ls(STORAGE_KEYS_NOTES \<mapsto> data))) = Inl err"
  by (simp add: getNotes_def)

text \<open>
  C2. Loading a collection whose stored text does not parse: \<open>getNotes\<close>,
  \<open>getFolders\<close> and \<open>getTags\<close> end with the \<open>SyntaxError\<close> of \<open>JSON.parse\<close>, not
  with the empty list. (For a missing key they return the empty list, lemma
  \<open>getNotes_absent\<close>.)
\<close>

theorem getNotes_unparsable_throws:
  "getNotes (Window (Map.empty(STORAGE_KEYS_NOTES \<mapsto> ''{''))) = Inl SyntaxError
   \<and> getNotes (Window (Map.empty(STORAGE_KEYS_NOTES \<mapsto> ''not json''))) = Inl SyntaxError
   \<and> getFolders (Window (Map.empty(STORAGE_KEYS_FOLDERS \<mapsto> ''[{''))) = Inl SyntaxError
   \<and> getTags (Window (Map.empty(STORAGE_KEYS_TAGS \<mapsto> ''[{}''))) = Inl SyntaxError"
  by (simp add: getNotes_def getFolders_def getTags_def JSON_parse_def skip_ws_def is_ws_def
      is_digit_def parse_literal_def)

lemma stringify_truthy: "JSON_stringify v \<noteq> []"
  by (simp add: JSON_stringify_def stringify_nonempty)

lemma js_of_note_inj: "inj js_of_note"
proof (rule injI)
  fix n m :: Note
  assume "js_of_note n = js_of_note m"
  then show "n = m"
    by (cases n; cases m)
       (auto simp: js_of_note_def js_of_id_def inj_map_eq_map inj_on_def split: option.splits)
qed

text \<open>
  C9. In a browser, \<open>getNotes\<close> after \<open>saveNotes(ns)\<close> returns the array of the notes
  \<open>ns\<close> as JavaScript values, whatever \<open>ns\<close> is (the empty list included) and
  whatever the storage held before; and two notes with the same JavaScript value are the
  same note, field for field.
\<close>

theorem saveNotes_getNotes_roundtrip:
  "getNotes (saveNotes ns (Window ls)) = Inr (JArr (map js_of_note ns)) \<and> inj js_of_note"
  by (simp add: getNotes_def saveNotes_def stringify_truthy JSON_parse_stringify js_of_note_inj)

section \<open>Creating a tag\<close>

text \<open>
  C10. When the tags \<open>createTag\<close> reads hold a tag whose name matches the argument
  ignoring case (for a call made on a rendered state they are the stored tags),
  \<open>createTag\<close> returns the first such tag as it is stored (its own name and id), and
  the whole store, the tag collection included, is as before.
\<close>

theorem createTag_existing_unchanged:
  assumes "\<exists>t \<in> set tags. toLowerCase (tag_name t) = toLowerCase name"
  shows "find (\<lambda>t. toLowerCase (tag_name t) = toLowerCase name) tags = Some (fst (createTag tags name now s))
       \<and> fst (createTag tags name now s) \<in> set tags
       \<and> toLowerCase (tag_name (fst (createTag tags name now s))) = toLowerCase name
       \<and> snd (createTag tags name now s) = s"
proof -
  from find_first_match [OF assms] obtain y
    where y: "find (\<lambda>t. toLowerCase (tag_name t) = toLowerCase name) tags = Some y"
      "y \<in> set tags" "toLowerCase (tag_name y) = toLowerCase name"
    by blast
  then have "createTag tags name now s = (y, s)"
    by (simp add: createTag_def)
  with y show ?thesis by simp
qed

text \<open>
  The theorem at the sample store, for a call made on the rendered store:
  \<open>createTag("WORK")\<close> returns the stored tag \<open>work\<close> with its id, and the store is as
  before.
\<close>

theorem createTag_existing_unchanged_witness:
  "fst (createTag (st_tags sample_store) ''WORK'' 9 sample_store) = work_tag
   \<and> fst (createTag (st_tags sample_store) ''WORK'' 9 sample_store) \<in> set (st_tags sample_store)
   \<and> tag_name (fst (createTag (st_tags sample_store) ''WORK'' 9 sample_store)) = ''work''
   \<and> tag_id (fst (createTag (st_tags sample_store) ''WORK'' 9 sample_store)) = ''5''
   \<and> snd (createTag (st_tags sample_store) ''WORK'' 9 sample_store) = sample_store"
proof -
  have stored: "work_tag \<in> set (st_tags sample_store)"
    by (simp add: sample_store_def)
  show ?thesis
    using createTag_existing_unchanged [of "st_tags sample_store" "''WORK''" 9 sample_store] stored
    by (simp add: createTag_samples work_tag_def)
qed

text \<open>
  C5 as stated fails in two ways. In a store that already has a matching tag,
  \<open>createTag("Work")\<close> then \<open>createTag("work")\<close> at the sample store, which holds the
  tag \<open>work\<close>, leave the tag collection at its length: it grows by zero, not by one.
  And two calls made from one render of the empty store both look the name up in that
  render's tags, which are empty, so that each appends a tag: the two tags returned have
  the ids 7 and 8, and the collection grows by two.
\<close>

theorem createTag_twice_counterexample:
  "toLowerCase ''Work'' = toLowerCase ''work''
   \<and> length (st_tags (snd (createTag (st_tags sample_store) ''work'' 8
         (snd (createTag (st_tags sample_store) ''Work'' 7 sample_store)))))
       = length (st_tags sample_store)
   \<and> tag_id (fst (createTag [] ''Work'' 7 empty_store)) = ''7''
   \<and> tag_id (fst (createTag [] ''work'' 8 (snd (createTag [] ''Work'' 7 empty_store)))) = ''8''
   \<and> length (st_tags (snd (createTag [] ''work'' 8 (snd (createTag [] ''Work'' 7 empty_store))))) = 2"
  by (simp add: createTag_samples toLowerCase_samples)

text \<open>
  C5, as the code has it by design. Take two names equal up to letter case and calls made
  on a rendered store. When a stored tag matches the names ignoring case, the first
  \<open>createTag\<close> returns the first such tag and leaves the store as it is, and the second
  \<open>createTag\<close>, whether it reads the same tags or those of the store after the first
  call (they are the same), returns that same tag and leaves the store as it is: the
  tag collection does not grow. When no stored tag matches, the first \<open>createTag\<close>
  appends one tag, with the first name and the id made from the clock, and returns it.
  Nothing is said of a second call after a first one that appended a tag.
\<close>

theorem createTag_twice:
  assumes "toLowerCase a = toLowerCase b"
  shows "((\<exists>t \<in> set (st_tags s). toLowerCase (tag_name t) = toLowerCase a) \<longrightarrow>
            fst (createTag (st_tags s) a t1 s) \<in> set (st_tags s)
          \<and> toLowerCase (tag_name (fst (createTag (st_tags s) a t1 s))) = toLowerCase a
          \<and> snd (createTag (st_tags s) a t1 s) = s
          \<and> fst (createTag (st_tags s) b t2 (snd (createTag (st_tags s) a t1 s)))
              = fst (createTag (st_tags s) a t1 s)
          \<and> fst (createTag (st_tags (snd (createTag (st_tags s) a t1 s))) b t2
                  (snd (createTag (st_tags s) a t1 s)))
              = fst (createTag (st_tags s) a t1 s)
          \<and> snd (createTag (st_tags s) b t2 (snd (createTag (st_tags s) a t1 s))) = s)
       \<and> (\<not> (\<exists>t \<in> set (st_tags s). toLowerCase (tag_name t) = toLowerCase a) \<longrightarrow>
            fst (createTag (st_tags s) a t1 s) = \<lparr>tag_id = toString t1, tag_name = a, color = None\<rparr>
          \<and> st_tags (snd (createTag (st_tags s) a t1 s)) =
              st_tags s @ [\<lparr>tag_id = toString t1, tag_name = a, color = None\<rparr>]
          \<and> length (st_tags (snd (createTag (st_tags s) a t1 s))) = length (st_tags s) + 1)"
proof (cases "find (\<lambda>t. toLowerCase (tag_name t) = toLowerCase a) (st_tags s)")
  case None
  then have no: "\<not> (\<exists>t \<in> set (st_tags s). toLowerCase (tag_name t) = toLowerCase a)"
    by (simp add: find_None_iff)
  from None have "createTag (st_tags s) a t1 s =
      (\<lparr>tag_id = toString t1, tag_name = a, color = None\<rparr>,
       s\<lparr>st_tags := st_tags s @ [\<lparr>tag_id = toString t1, tag_name = a, color = None\<rparr>]\<rparr>)"
    by (simp add: createTag_def Let_def)
  with no show ?thesis by simp
next
  case (Some y)
  then have yes: "\<exists>t \<in> set (st_tags s). toLowerCase (tag_name t) = toLowerCase a"
    and y: "y \<in> set (st_tags s)" "toLowerCase (tag_name y) = toLowerCase a"
    by (auto simp: find_Some_iff)
  from Some have first: "createTag (st_tags s) a t1 s = (y, s)"
    by (simp add: createTag_def)
  from Some assms have second: "createTag (st_tags s) b t2 s = (y, s)"
    by (simp add: createTag_def)
  from first second yes y show ?thesis by simp
qed

text \<open>
  The theorem at the sample store, which holds the tag \<open>work\<close>, and at the empty
  store: \<open>createTag("Work")\<close>, then \<open>createTag("work")\<close> at the first, and
  \<open>createTag("Work")\<close> at the second.
\<close>

theorem createTag_twice_witness:
  "toLowerCase ''Work'' = toLowerCase ''work''
   \<and> fst (createTag (st_tags sample_store) ''Work'' 7 sample_store) = work_tag
   \<and> fst (createTag (st_tags sample_store) ''work'' 8
         (snd (createTag (st_tags sample_store) ''Work'' 7 sample_store))) = work_tag
   \<and> snd (createTag (st_tags sample_store) ''work'' 8
         (snd (createTag (st_tags sample_store) ''Work'' 7 sample_store))) = sample_store
   \<and> fst (createTag (st_tags empty_store) ''Work'' 7 empty_store) =
         \<lparr>tag_id = ''7'', tag_name = ''Work'', color = None\<rparr>
   \<and> length (st_tags (snd (createTag (st_tags empty_store) ''Work'' 7 empty_store))) = 1"
proof -
  have none: "st_tags empty_store = []"
    by (simp add: empty_store_def)
  show ?thesis
    using createTag_twice [of "''Work''" "''work''" sample_store 7 8]
      createTag_twice [of "''Work''" "''work''" empty_store 7 8]
    by (simp add: none createTag_samples toLowerCase_samples toString_samples)
qed

section \<open>Font size\<close>

text \<open>
  C4 as stated fails for \<open>updateNote\<close>: asked to store the font size 5 it stores 5,
  and asked to store 100 it stores 100.
\<close>

theorem updateNote_fontSize_counterexample:
  "map fontSize (st_notes (updateNote ''3'' (fontSize_updates 5) 20 sample_store)) = [16, 5]
   \<and> map fontSize (st_notes (updateNote ''3'' (fontSize_updates 100) 20 sample_store)) = [16, 100]"
  by (simp add: sample_store_def filed_note_def root_note_def updateNote_def merge_note_def
      fontSize_updates_def no_updates_def)

text \<open>
  C4, as the code has it. The editor's \<open>handleFontSizeChange\<close> saturates
  \<open>prev + delta\<close> at the nearest bound of [12, 48], and \<open>updateNote\<close> stores the
  font size it is given on every note with the given id.
\<close>

theorem fontSize_clamped_in_editor:
  "MIN_FONT_SIZE \<le> handleFontSizeChange delta prev
   \<and> handleFontSizeChange delta prev \<le> MAX_FONT_SIZE
   \<and> (prev + delta < 12 \<longrightarrow> handleFontSizeChange delta prev = 12)
   \<and> (48 < prev + delta \<longrightarrow> handleFontSizeChange delta prev = 48)
   \<and> (12 \<le> prev + delta \<and> prev + delta \<le> 48 \<longrightarrow> handleFontSizeChange delta prev = prev + delta)
   \<and> (\<forall>n \<in> set (st_notes (updateNote i (fontSize_updates v) now s)). note_id n = i \<longrightarrow> fontSize n = v)"
proof -
  have "\<forall>n \<in> set (st_notes (updateNote i (fontSize_updates v) now s)). note_id n = i \<longrightarrow> fontSize n = v"
  proof (intro ballI impI)
    fix n
    assume "n \<in> set (st_notes (updateNote i (fontSize_updates v) now s))" and i: "note_id n = i"
    then obtain x where x: "x \<in> set (st_notes s)"
      "n = (if note_id x = i then (merge_note x (fontSize_updates v))\<lparr>updatedAt := now\<rparr> else x)"
      by (auto simp: updateNote_notes)
    show "fontSize n = v"
    proof (cases "note_id x = i")
      case True
      with x(2) show ?thesis
        by (simp add: merge_note_def fontSize_updates_def no_updates_def)
    next
      case False
      with x(2) i show ?thesis by simp
    qed
  qed
  then show ?thesis
    by (simp add: handleFontSizeChange_def MIN_FONT_SIZE_def MAX_FONT_SIZE_def)
qed

text \<open>
  The theorem at the bounds and inside them, and the clamped value stored in the
  sample store.
\<close>

theorem fontSize_clamped_in_editor_witness:
  "handleFontSizeChange (-2) 12 = 12 \<and> handleFontSizeChange 2 48 = 48
   \<and> handleFontSizeChange 2 16 = 18
   \<and> map fontSize (st_notes (updateNote ''3'' (fontSize_updates (handleFontSizeChange 2 48)) 20 sample_store))
       = [16, 48]"
  using fontSize_clamped_in_editor [of "-2" 12 "''3''" 48 20 sample_store]
    fontSize_clamped_in_editor [of 2 48 "''3''" 48 20 sample_store]
    fontSize_clamped_in_editor [of 2 16 "''3''" 48 20 sample_store]
  by (simp add: sample_store_def filed_note_def root_note_def updateNote_def merge_note_def
      fontSize_updates_def no_updates_def handleFontSizeChange_def MIN_FONT_SIZE_def
      MAX_FONT_SIZE_def)

section \<open>Calls with an unknown id\<close>

text \<open>
  C7 as stated fails for \<open>deleteFolder\<close>: a note created under the folder id
  \<open>ghost\<close>, which no folder has, is moved to the root by \<open>deleteFolder("ghost")\<close>.
\<close>

theorem deleteFolder_unknown_id_counterexample:
  "st_folders ghost_store = []
   \<and> map folderId (st_notes ghost_store) = [Some ''ghost'']
   \<and> map folderId (st_notes (deleteFolder ''ghost'' ghost_store)) = [None]"
  by (simp add: ghost_store_def createNote_def deleteFolder_def empty_store_def Let_def)

text \<open>
  C7, as the code has it. With an id that no note has, \<open>updateNote\<close> and
  \<open>deleteNote\<close> leave the three collections as they were; with an id that no folder
  has, so does \<open>updateFolder\<close>, and \<open>deleteFolder\<close> leaves the folders and the tags
  as they were, and the notes too when no note is filed under that id; with an id that
  no tag has, \<open>deleteTag\<close> leaves the three collections as they were. After
  \<open>createNote()\<close> at the root of the empty store, \<open>deleteFolder\<close> on any id leaves
  the collections as they were, with one note. None of the five operations has a
  failing branch: each is a \<open>map\<close> or a \<open>filter\<close> over the lists, and returns a
  store for every argument.
\<close>

theorem unknown_id_is_noop:
  "(i \<notin> note_id ` set (st_notes s) \<longrightarrow>
      collections (updateNote i u now s) = collections s
    \<and> collections (deleteNote i s) = collections s)
   \<and> (i \<notin> folder_id ` set (st_folders s) \<longrightarrow>
      collections (updateFolder i fu s) = collections s
    \<and> st_folders (deleteFolder i s) = st_folders s
    \<and> st_tags (deleteFolder i s) = st_tags s
    \<and> ((\<forall>n \<in> set (st_notes s). folderId n \<noteq> Some i) \<longrightarrow> collections (deleteFolder i s) = collections s))
   \<and> (i \<notin> tag_id ` set (st_tags s) \<longrightarrow> collections (deleteTag i s) = collections s)
   \<and> collections (deleteFolder i (snd (createNote None t1 t2 t3 empty_store)))
        = collections (snd (createNote None t1 t2 t3 empty_store))
   \<and> length (st_notes (deleteFolder i (snd (createNote None t1 t2 t3 empty_store)))) = 1"
proof -
  have n: "collections (updateNote i u now s) = collections s \<and> collections (deleteNote i s) = collections s"
    if "i \<notin> note_id ` set (st_notes s)"
  proof -
    from that have "\<And>x. x \<in> set (st_notes s) \<Longrightarrow> note_id x \<noteq> i" by auto
    then have "st_notes (updateNote i u now s) = st_notes s" "st_notes (deleteNote i s) = st_notes s"
      by (simp_all add: updateNote_notes deleteNote_notes map_unchanged filter_unchanged)
    then show ?thesis
      by (simp add: collections_def) (simp add: updateNote_def deleteNote_def Let_def)
  qed
  have f: "collections (updateFolder i fu s) = collections s
      \<and> st_folders (deleteFolder i s) = st_folders s \<and> st_tags (deleteFolder i s) = st_tags s
      \<and> ((\<forall>n \<in> set (st_notes s). folderId n \<noteq> Some i) \<longrightarrow> collections (deleteFolder i s) = collections s)"
    if "i \<notin> folder_id ` set (st_folders s)"
  proof -
    from that have no: "\<And>x. x \<in> set (st_folders s) \<Longrightarrow> folder_id x \<noteq> i" by auto
    then have 1: "st_folders (updateFolder i fu s) = st_folders s"
      by (simp add: updateFolder_def map_unchanged)
    from no have 2: "st_folders (deleteFolder i s) = st_folders s"
      by (simp add: deleteFolder_folders filter_unchanged)
    have 3: "st_notes (deleteFolder i s) = st_notes s" if "\<forall>n \<in> set (st_notes s). folderId n \<noteq> Some i"
      using that by (simp add: deleteFolder_notes map_unchanged)
    from 1 2 3 show ?thesis
      by (simp add: collections_def deleteFolder_tags) (simp add: updateFolder_def)
  qed
  have t: "collections (deleteTag i s) = collections s" if "i \<notin> tag_id ` set (st_tags s)"
  proof -
    from that have no: "\<And>x. x \<in> set (st_tags s) \<Longrightarrow> tag_id x \<noteq> i" by auto
    then have "find (\<lambda>t. tag_id t = i) (st_tags s) = None"
      by (auto simp: find_None_iff)
    then have "st_notes (deleteTag i s) = st_notes s"
      by (simp add: deleteTag_notes map_unchanged)
    moreover from no have "st_tags (deleteTag i s) = st_tags s"
      by (simp add: deleteTag_tags filter_unchanged)
    ultimately show ?thesis
      by (simp add: collections_def deleteTag_folders)
  qed
  have e: "collections (deleteFolder i (snd (createNote None t1 t2 t3 empty_store)))
        = collections (snd (createNote None t1 t2 t3 empty_store))
      \<and> length (st_notes (deleteFolder i (snd (createNote None t1 t2 t3 empty_store)))) = 1"
    by (simp add: collections_def deleteFolder_def createNote_def empty_store_def Let_def)
  from n f t e show ?thesis by blast
qed

text \<open>
  The theorem at the sample store, with the id 9 that nothing has.
\<close>

theorem unknown_id_is_noop_witness:
  "collections (updateNote ''9'' (title_updates ''x'') 20 sample_store) = collections sample_store
   \<and> collections (deleteNote ''9'' sample_store) = collections sample_store
   \<and> collections (updateFolder ''9'' no_folder_updates sample_store) = collections sample_store
   \<and> collections (deleteFolder ''9'' sample_store) = collections sample_store
   \<and> collections (deleteTag ''9'' sample_store) = collections sample_store
   \<and> length (st_notes (deleteFolder ''9'' (snd (createNote None 1 1 1 empty_store)))) = 1"
  using unknown_id_is_noop [of "''9''" sample_store "title_updates ''x''" 20 no_folder_updates 1 1 1]
  by (simp add: sample_store_def filed_note_def root_note_def drafts_folder_def work_tag_def
      home_tag_def)

section \<open>Deleting a tag\<close>

text \<open>
  C6 as stated fails when two tags share an id, as two tags created at the same reading
  of the clock do (here from one render of the empty store): \<open>deleteTag\<close> looks up the first tag with the id and strips that
  tag's name, so the name of the second one stays on the notes while both tags leave
  the collection.
\<close>

theorem deleteTag_same_id_counterexample:
  "st_tags same_id_tags_store =
     [\<lparr>tag_id = ''5'', tag_name = ''a'', color = None\<rparr>, \<lparr>tag_id = ''5'', tag_name = ''b'', color = None\<rparr>]
   \<and> map note_tags (st_notes same_id_tags_store) = [[''a'', ''b'']]
   \<and> map note_tags (st_notes (deleteTag ''5'' same_id_tags_store)) = [[''b'']]
   \<and> st_tags (deleteTag ''5'' same_id_tags_store) = []"
  by (simp add: same_id_tags_store_def tags_updates_def createNote_def updateNote_def createTag_def
      deleteTag_def merge_note_def no_updates_def empty_store_def Let_def toString_samples
      toLowerCase_samples)

lemma find_distinct_ids:
  "distinct (map f xs) \<Longrightarrow> x \<in> set xs \<Longrightarrow> find (\<lambda>y. f y = f x) xs = Some x"
  by (induction xs) (auto simp: image_iff)

text \<open>
  C6, as the code has it. For a tag \<open>T\<close> that is the first tag of the collection
  with its id (every tag of a collection whose ids are distinct, lemma
  \<open>find_distinct_ids\<close>), after \<open>deleteTag(T.id)\<close> no note's tags contain \<open>T.name\<close>,
  every note is the note it was with \<open>T.name\<close> filtered out of its tags (the other
  names stay, in their order), and \<open>T\<close> is no longer in the tag collection, which has
  lost the tags with that id and no other.
\<close>

theorem deleteTag_strips_name:
  assumes "find (\<lambda>t. tag_id t = tag_id T) (st_tags s) = Some T"
  shows "T \<in> set (st_tags s)
       \<and> (\<forall>n \<in> set (st_notes (deleteTag (tag_id T) s)). tag_name T \<notin> set (note_tags n))
       \<and> st_notes (deleteTag (tag_id T) s) =
           map (\<lambda>n. n\<lparr>note_tags := filter (\<lambda>x. x \<noteq> tag_name T) (note_tags n)\<rparr>) (st_notes s)
       \<and> T \<notin> set (st_tags (deleteTag (tag_id T) s))
       \<and> st_tags (deleteTag (tag_id T) s) = filter (\<lambda>t. tag_id t \<noteq> tag_id T) (st_tags s)"
proof -
  from assms have mem: "T \<in> set (st_tags s)"
    by (auto simp: find_Some_iff)
  have nts: "st_notes (deleteTag (tag_id T) s) =
      map (\<lambda>n. n\<lparr>note_tags := filter (\<lambda>x. x \<noteq> tag_name T) (note_tags n)\<rparr>) (st_notes s)"
    by (simp add: deleteTag_notes assms)
  have none: "\<forall>n \<in> set (st_notes (deleteTag (tag_id T) s)). tag_name T \<notin> set (note_tags n)"
    unfolding nts by simp
  have tgs: "st_tags (deleteTag (tag_id T) s) = filter (\<lambda>t. tag_id t \<noteq> tag_id T) (st_tags s)"
    by (rule deleteTag_tags)
  have gone: "T \<notin> set (st_tags (deleteTag (tag_id T) s))"
    unfolding tgs by simp
  from mem nts none tgs gone show ?thesis by blast
qed

text \<open>
  The theorem at the sample store, deleting the tag \<open>home\<close>.
\<close>

theorem deleteTag_strips_name_witness:
  "find (\<lambda>t. tag_id t = tag_id home_tag) (st_tags sample_store) = Some home_tag
   \<and> map note_tags (st_notes (deleteTag ''6'' sample_store)) = [[''work''], []]
   \<and> st_tags (deleteTag ''6'' sample_store) = [work_tag]"
  using deleteTag_strips_name [of home_tag sample_store]
  by (simp add: sample_store_def home_tag_def work_tag_def filed_note_def root_note_def)

section \<open>The id of a note\<close>

text \<open>
  C8 as stated fails for an \<open>updateNote\<close> whose fields carry \<open>id\<close>: the spread
  writes the new id over the old one.
\<close>

theorem updateNote_id_counterexample:
  "map note_id (st_notes sample_store) = [''2'', ''3'']
   \<and> map note_id (st_notes (updateNote ''3'' (id_updates ''2'') 20 sample_store)) = [''2'', ''2'']"
  by (simp add: sample_store_def filed_note_def root_note_def updateNote_def merge_note_def
      id_updates_def no_updates_def)

text \<open>An \<open>updateNote\<close> whose fields carry an id gives that id to every note it matches.\<close>

lemma updateNote_carrying_id:
  "upd_id u = Some j \<Longrightarrow>
   map note_id (st_notes (updateNote i u now s)) =
     map (\<lambda>k. if k = i then j else k) (map note_id (st_notes s))"
  by (simp add: updateNote_notes merge_note_def)

lemma merge_note_id: "upd_id u = None \<Longrightarrow> note_id (merge_note n u) = note_id n"
  by (simp add: merge_note_def)

lemma merge_note_createdAt: "upd_createdAt u = None \<Longrightarrow> createdAt (merge_note n u) = createdAt n"
  by (simp add: merge_note_def)

lemma apply_call_keeps_ids:
  assumes "\<not> carries_id c" "\<not> adds_or_removes_note c"
  shows "map note_id (st_notes (apply_call c s)) = map note_id (st_notes s)"
proof (cases c)
  case (UpdateNote i u now)
  with assms have "upd_id u = None" by simp
  then show ?thesis
    by (simp add: UpdateNote updateNote_notes merge_note_id)
next
  case (DeleteFolder i)
  then show ?thesis by (simp add: deleteFolder_notes o_def if_distrib cong: if_cong)
next
  case (DeleteTag i)
  then show ?thesis by (simp add: deleteTag_notes o_def)
qed (use assms in \<open>simp_all add: createFolder_notes updateFolder_notes createTag_notes select_notes\<close>)

text \<open>
  C8, as the code has it. A list of calls none of which is \<open>createNote\<close>,
  \<open>deleteNote\<close> or an \<open>updateNote\<close> whose fields carry \<open>id\<close> leaves the ids of
  the notes as they were, position by position; \<open>createNote\<close> appends one note, with
  the id it makes from the clock, and \<open>deleteNote\<close> drops the notes with the given id,
  both leaving the other ids as they were.
\<close>

theorem note_ids_never_rewritten:
  "((\<forall>c \<in> set cs. \<not> carries_id c \<and> \<not> adds_or_removes_note c) \<longrightarrow>
      map note_id (st_notes (run_calls cs s)) = map note_id (st_notes s))
   \<and> map note_id (st_notes (apply_call (CreateNote fid t_id t_created t_updated) s)) =
       map note_id (st_notes s) @ [toString t_id]
   \<and> map note_id (st_notes (apply_call (DeleteNote i) s)) =
       filter (\<lambda>j. j \<noteq> i) (map note_id (st_notes s))"
proof -
  have seq: "(\<forall>c \<in> set cs. \<not> carries_id c \<and> \<not> adds_or_removes_note c) \<Longrightarrow>
      map note_id (st_notes (run_calls cs s)) = map note_id (st_notes s)"
  proof (induction cs arbitrary: s)
    case Nil
    then show ?case by simp
  next
    case (Cons c cs)
    then have "map note_id (st_notes (run_calls cs (apply_call c s))) = map note_id (st_notes (apply_call c s))"
      by simp
    with Cons.prems show ?case
      by (simp add: apply_call_keeps_ids)
  qed
  have del: "map note_id (st_notes (apply_call (DeleteNote i) s)) =
       filter (\<lambda>j. j \<noteq> i) (map note_id (st_notes s))"
    by (simp add: deleteNote_notes filter_map o_def)
  from seq del show ?thesis
    by (simp add: createNote_notes)
qed

text \<open>
  The theorem at the sample store, for a list of four calls.
\<close>

theorem note_ids_never_rewritten_witness:
  "map note_id (st_notes (run_calls [UpdateNote ''3'' (title_updates ''New'') 20,
       UpdateNote ''2'' (tags_updates []) 21, DeleteTag ''5'', DeleteFolder ''1''] sample_store))
     = [''2'', ''3'']"
  using note_ids_never_rewritten [of "[UpdateNote ''3'' (title_updates ''New'') 20,
       UpdateNote ''2'' (tags_updates []) 21, DeleteTag ''5'', DeleteFolder ''1'']" sample_store]
  by (simp add: title_updates_def tags_updates_def no_updates_def sample_store_def filed_note_def
      root_note_def)

section \<open>Unique ids and ordered timestamps\<close>

text \<open>
  C3 as stated fails in four ways: two \<open>createNote\<close> calls at the same reading of the
  clock make two notes with one id; an \<open>updateNote\<close> whose fields carry a later
  \<open>createdAt\<close> leaves \<open>updatedAt\<close> behind it; an \<open>updateNote\<close> whose fields carry
  the id of another note makes two notes with one id; and a clock that runs backwards
  between the readings of one \<open>createNote\<close> makes a note with \<open>updatedAt\<close> before
  \<open>createdAt\<close>.
\<close>

theorem note_invariants_counterexample:
  "\<not> distinct (map note_id (st_notes (run_calls [CreateNote None 5 5 5, CreateNote None 5 5 5] empty_store)))
   \<and> map (\<lambda>n. (createdAt n, updatedAt n))
        (st_notes (run_calls [CreateNote None 5 5 5, UpdateNote ''5'' (createdAt_updates 100) 6] empty_store))
       = [(100, 6)]
   \<and> map note_id (st_notes (run_calls [CreateNote None 5 5 5, CreateNote None 6 6 6,
        UpdateNote ''6'' (id_updates ''5'') 7] empty_store)) = [''5'', ''5'']
   \<and> map (\<lambda>n. (createdAt n, updatedAt n)) (st_notes (run_calls [CreateNote None 5 9 7] empty_store))
       = [(9, 7)]"
  by (simp add: createNote_def updateNote_def merge_note_def createdAt_updates_def id_updates_def
      no_updates_def empty_store_def Let_def toString_samples)

lemma inj_toString: "inj toString"
  by (rule injI) (rule toString_inj)

lemma invariants_under_map:
  assumes g: "\<And>n. note_id (g n) = note_id n" "\<And>n. createdAt (g n) = createdAt n"
    and upd: "\<And>n. n \<in> set xs \<Longrightarrow> createdAt n \<le> updatedAt (g n)"
    and d: "distinct (map note_id xs)"
    and fresh: "\<forall>n \<in> set xs. note_id n \<notin> A"
    and times: "\<forall>n \<in> set xs. \<forall>t \<in> T. createdAt n \<le> t"
  shows "distinct (map note_id (map g xs))
       \<and> (\<forall>n \<in> set (map g xs). note_id n \<notin> A)
       \<and> (\<forall>n \<in> set (map g xs). createdAt n \<le> updatedAt n \<and> (\<forall>t \<in> T. createdAt n \<le> t))"
proof -
  have eq: "map note_id (map g xs) = map note_id xs"
    by (simp add: comp_def g(1))
  have "distinct (map note_id (map g xs))"
    unfolding eq by (rule d)
  moreover from fresh have "\<forall>n \<in> set (map g xs). note_id n \<notin> A"
    by (simp add: g(1))
  moreover from times upd have "\<forall>n \<in> set (map g xs). createdAt n \<le> updatedAt n \<and> (\<forall>t \<in> T. createdAt n \<le> t)"
    by (simp add: g(2))
  ultimately show ?thesis by blast
qed

text \<open>
  One call keeps what the induction needs: the ids of the notes are distinct and none
  of them is the text of an id reading still to come; every note has
  \<open>createdAt \<le> updatedAt\<close>, and \<open>createdAt\<close> is at most every reading still to come.
\<close>

lemma apply_call_invariants:
  assumes d: "distinct (map note_id (st_notes s))"
    and fresh: "\<forall>n \<in> set (st_notes s). note_id n \<notin> toString ` set (note_id_readings c @ ids)"
    and times: "\<forall>n \<in> set (st_notes s). createdAt n \<le> updatedAt n \<and> (\<forall>t \<in> set (readings c @ ts). createdAt n \<le> t)"
    and clock: "sorted (readings c @ ts)"
    and ids: "distinct (note_id_readings c @ ids)"
    and keeps: "\<not> carries_id c" "\<not> carries_createdAt c"
  shows "distinct (map note_id (st_notes (apply_call c s)))
       \<and> (\<forall>n \<in> set (st_notes (apply_call c s)). note_id n \<notin> toString ` set ids)
       \<and> (\<forall>n \<in> set (st_notes (apply_call c s)). createdAt n \<le> updatedAt n \<and> (\<forall>t \<in> set ts. createdAt n \<le> t))"
proof (cases c)
  case (CreateNote fid a b c')
  from fresh have "toString a \<notin> note_id ` set (st_notes s)"
    by (auto simp: CreateNote)
  moreover from ids have "toString a \<notin> toString ` set ids"
    by (simp add: CreateNote inj_image_mem_iff [OF inj_toString])
  moreover from clock have "b \<le> c'" "\<forall>t \<in> set ts. b \<le> t"
    by (auto simp: CreateNote)
  ultimately show ?thesis
    using d fresh times by (auto simp: CreateNote createNote_notes)
next
  case (UpdateNote i u now)
  with keeps have u: "upd_id u = None" "upd_createdAt u = None" by simp_all
  from times have now: "\<forall>n \<in> set (st_notes s). createdAt n \<le> now"
    by (simp add: UpdateNote)
  have "distinct (map note_id (map (\<lambda>note. if note_id note = i then (merge_note note u)\<lparr>updatedAt := now\<rparr> else note) (st_notes s)))
       \<and> (\<forall>n \<in> set (map (\<lambda>note. if note_id note = i then (merge_note note u)\<lparr>updatedAt := now\<rparr> else note) (st_notes s)). note_id n \<notin> toString ` set ids)
       \<and> (\<forall>n \<in> set (map (\<lambda>note. if note_id note = i then (merge_note note u)\<lparr>updatedAt := now\<rparr> else note) (st_notes s)).
            createdAt n \<le> updatedAt n \<and> (\<forall>t \<in> set ts. createdAt n \<le> t))"
  proof (rule invariants_under_map)
    show "distinct (map note_id (st_notes s))" by (rule d)
    show "\<forall>n \<in> set (st_notes s). note_id n \<notin> toString ` set ids"
      using fresh by (simp add: UpdateNote)
    show "\<forall>n \<in> set (st_notes s). \<forall>t \<in> set ts. createdAt n \<le> t"
      using times by simp
    show "createdAt n \<le> updatedAt (if note_id n = i then (merge_note n u)\<lparr>updatedAt := now\<rparr> else n)"
      if "n \<in> set (st_notes s)" for n
      using that times now by simp
  qed (simp_all add: merge_note_id [OF u(1)] merge_note_createdAt [OF u(2)])
  then show ?thesis
    unfolding UpdateNote apply_call.simps updateNote_notes .
next
  case (DeleteNote i)
  then show ?thesis
    using d fresh times by (auto simp: deleteNote_notes distinct_map_filter)
next
  case (DeleteFolder i)
  have "distinct (map note_id (map (\<lambda>note. if folderId note = Some i then note\<lparr>folderId := None\<rparr> else note) (st_notes s)))
       \<and> (\<forall>n \<in> set (map (\<lambda>note. if folderId note = Some i then note\<lparr>folderId := None\<rparr> else note) (st_notes s)). note_id n \<notin> toString ` set ids)
       \<and> (\<forall>n \<in> set (map (\<lambda>note. if folderId note = Some i then note\<lparr>folderId := None\<rparr> else note) (st_notes s)).
            createdAt n \<le> updatedAt n \<and> (\<forall>t \<in> set ts. createdAt n \<le> t))"
  proof (rule invariants_under_map)
    show "distinct (map note_id (st_notes s))" by (rule d)
    show "\<forall>n \<in> set (st_notes s). note_id n \<notin> toString ` set ids"
      using fresh by (simp add: DeleteFolder)
    show "\<forall>n \<in> set (st_notes s). \<forall>t \<in> set ts. createdAt n \<le> t"
      using times by simp
    show "createdAt n \<le> updatedAt (if folderId n = Some i then n\<lparr>folderId := None\<rparr> else n)"
      if "n \<in> set (st_notes s)" for n
      using that times by simp
  qed simp_all
  then show ?thesis
    unfolding DeleteFolder apply_call.simps deleteFolder_notes .
next
  case (DeleteTag i)
  let ?keep = "\<lambda>tagName. case find (\<lambda>t. tag_id t = i) (st_tags s) of
      Some tag \<Rightarrow> tagName \<noteq> tag_name tag | None \<Rightarrow> True"
  have "distinct (map note_id (map (\<lambda>note. note\<lparr>note_tags := filter ?keep (note_tags note)\<rparr>) (st_notes s)))
       \<and> (\<forall>n \<in> set (map (\<lambda>note. note\<lparr>note_tags := filter ?keep (note_tags note)\<rparr>) (st_notes s)). note_id n \<notin> toString ` set ids)
       \<and> (\<forall>n \<in> set (map (\<lambda>note. note\<lparr>note_tags := filter ?keep (note_tags note)\<rparr>) (st_notes s)).
            createdAt n \<le> updatedAt n \<and> (\<forall>t \<in> set ts. createdAt n \<le> t))"
  proof (rule invariants_under_map)
    show "distinct (map note_id (st_notes s))" by (rule d)
    show "\<forall>n \<in> set (st_notes s). note_id n \<notin> toString ` set ids"
      using fresh by (simp add: DeleteTag)
    show "\<forall>n \<in> set (st_notes s). \<forall>t \<in> set ts. createdAt n \<le> t"
      using times by simp
    show "createdAt n \<le> updatedAt (n\<lparr>note_tags := filter ?keep (note_tags n)\<rparr>)"
      if "n \<in> set (st_notes s)" for n
      using that times by simp
  qed simp_all
  then show ?thesis
    unfolding DeleteTag apply_call.simps deleteTag_notes .
next
  case (CreateFolder name pid a b)
  then show ?thesis
    using d fresh times by (simp add: createFolder_notes)
next
  case (UpdateFolder i u)
  then show ?thesis
    using d fresh times by (simp add: updateFolder_notes)
next
  case (CreateTag tags name a)
  then show ?thesis
    using d fresh times by (simp add: createTag_notes)
next
  case (SelectNote i)
  then show ?thesis
    using d fresh times by (simp add: select_notes)
next
  case (SelectFolder i)
  then show ?thesis
    using d fresh times by (simp add: select_notes)
qed

lemma run_calls_invariants:
  assumes "distinct (map note_id (st_notes s))"
    and "\<forall>n \<in> set (st_notes s). note_id n \<notin> toString ` set (concat (map note_id_readings cs))"
    and "\<forall>n \<in> set (st_notes s). createdAt n \<le> updatedAt n
           \<and> (\<forall>t \<in> set (concat (map readings cs)). createdAt n \<le> t)"
    and "sorted (concat (map readings cs))"
    and "distinct (concat (map note_id_readings cs))"
    and "\<forall>c \<in> set cs. \<not> carries_id c \<and> \<not> carries_createdAt c"
  shows "distinct (map note_id (st_notes (run_calls cs s)))
       \<and> (\<forall>n \<in> set (st_notes (run_calls cs s)). createdAt n \<le> updatedAt n)"
  using assms
proof (induction cs arbitrary: s)
  case Nil
  then show ?case by simp
next
  case (Cons c cs)
  have step: "distinct (map note_id (st_notes (apply_call c s)))
       \<and> (\<forall>n \<in> set (st_notes (apply_call c s)). note_id n \<notin> toString ` set (concat (map note_id_readings cs)))
       \<and> (\<forall>n \<in> set (st_notes (apply_call c s)). createdAt n \<le> updatedAt n
            \<and> (\<forall>t \<in> set (concat (map readings cs)). createdAt n \<le> t))"
  proof (rule apply_call_invariants)
    show "distinct (map note_id (st_notes s))" by (rule Cons.prems(1))
    show "\<forall>n \<in> set (st_notes s). note_id n \<notin> toString ` set (note_id_readings c @ concat (map note_id_readings cs))"
      using Cons.prems(2) by simp
    show "\<forall>n \<in> set (st_notes s). createdAt n \<le> updatedAt n
        \<and> (\<forall>t \<in> set (readings c @ concat (map readings cs)). createdAt n \<le> t)"
      using Cons.prems(3) by simp
    show "sorted (readings c @ concat (map readings cs))"
      using Cons.prems(4) by simp
    show "distinct (note_id_readings c @ concat (map note_id_readings cs))"
      using Cons.prems(5) by simp
    show "\<not> carries_id c" "\<not> carries_createdAt c"
      using Cons.prems(6) by simp_all
  qed
  have "distinct (map note_id (st_notes (run_calls cs (apply_call c s))))
       \<and> (\<forall>n \<in> set (st_notes (run_calls cs (apply_call c s))). createdAt n \<le> updatedAt n)"
  proof (rule Cons.IH)
    show "sorted (concat (map readings cs))"
      using Cons.prems(4) by (simp add: sorted_append)
    show "distinct (concat (map note_id_readings cs))"
      using Cons.prems(5) by simp
    show "\<forall>c \<in> set cs. \<not> carries_id c \<and> \<not> carries_createdAt c"
      using Cons.prems(6) by simp
  qed (use step in blast)+
  then show ?case by simp
qed

text \<open>
  C3, as the code has it. From the empty store, after a list of calls in which the clock
  never runs backwards, no two \<open>createNote\<close> calls read the same time for their id,
  and no \<open>updateNote\<close> carries \<open>id\<close> or \<open>createdAt\<close> in its fields, the ids of
  the notes are distinct and every note has \<open>createdAt \<le> updatedAt\<close>.
\<close>

theorem note_invariants:
  assumes "sorted (concat (map readings cs))"
    and "distinct (concat (map note_id_readings cs))"
    and "\<forall>c \<in> set cs. \<not> carries_id c \<and> \<not> carries_createdAt c"
  shows "distinct (map note_id (st_notes (run_calls cs empty_store)))
       \<and> (\<forall>n \<in> set (st_notes (run_calls cs empty_store)). createdAt n \<le> updatedAt n)"
  using run_calls_invariants [of empty_store cs] assms
  by (simp add: empty_store_def)

text \<open>
  The theorem at the sample list of calls: three notes created, one renamed, one
  deleted.
\<close>

theorem note_invariants_witness:
  "sorted (concat (map readings sample_calls))
   \<and> distinct (concat (map note_id_readings sample_calls))
   \<and> list_all (\<lambda>c. \<not> carries_id c \<and> \<not> carries_createdAt c) sample_calls
   \<and> map note_id (st_notes (run_calls sample_calls empty_store)) = [''10'', ''15'']
   \<and> distinct (map note_id (st_notes (run_calls sample_calls empty_store)))
   \<and> list_all (\<lambda>n. createdAt n \<le> updatedAt n) (st_notes (run_calls sample_calls empty_store))"
  using note_invariants [of sample_calls]
  by (simp add: sample_calls_def title_updates_def createNote_def updateNote_def deleteNote_def
      merge_note_def no_updates_def empty_store_def Let_def toString_samples)


end
